theory Spec2Isabelle
  imports Complex_Main
begin

section \<open>Models and state management (main.go, section 1)\<close>

text \<open>
  A \<^verbatim>\<open>context.Context\<close> made by \<^verbatim>\<open>context.WithCancel\<close> is identified by a number; its
  \<^verbatim>\<open>CancelFunc\<close> is identified with the context it cancels. The set of contexts whose
  \<^verbatim>\<open>Done\<close> channel is closed is part of the process state below.
\<close>

type_synonym ctx = nat
type_synonym cancel_func = ctx

text \<open>\<^verbatim>\<open>FileMetadata\<close>; \<^verbatim>\<open>time.Time\<close> is a number.\<close>

record FileMetadata =
  Path :: string
  Size :: int
  ModTime :: nat
  Hash :: string

text \<open>\<^verbatim>\<open>CollectionReport\<close>; its field \<^verbatim>\<open>Type\<close> is written \<open>ReportType\<close> here, since
  \<^verbatim>\<open>WSMessage\<close> has a field of the same name.\<close>

record CollectionReport =
  ReportType :: string
  RootPath :: string
  Files :: "FileMetadata list"
  Timestamp :: nat

text \<open>\<^verbatim>\<open>WSMessage\<close>. \<^verbatim>\<open>int64\<close> counters are integers (a file count stays far below
  \<open>2^63\<close>), and the \<^verbatim>\<open>float64\<close> percentage is a real number: rounding is left out.\<close>

record WSMessage =
  Type :: string
  Message :: string
  Total :: int
  Processed :: int
  Percentage :: real
  Status :: string

text \<open>\<^verbatim>\<open>StateManager\<close>. The mutex \<^verbatim>\<open>mu\<close> has no field: each method below is one atomic
  step. \<open>cancelFunc = None\<close> is Go's \<^verbatim>\<open>nil\<close>.\<close>

record StateManager =
  status :: string
  cancelFunc :: "cancel_func option"
  isPaused :: bool
  processedItems :: int
  totalItems :: int

definition Start :: "ctx \<Rightarrow> cancel_func \<Rightarrow> StateManager \<Rightarrow> StateManager" where
  "Start c cancel sm =
     sm\<lparr>status := ''running'', cancelFunc := Some cancel, isPaused := False,
        processedItems := 0, totalItems := 0\<rparr>"

definition SetTotal :: "int \<Rightarrow> StateManager \<Rightarrow> StateManager" where
  "SetTotal n sm = sm\<lparr>totalItems := n\<rparr>"

definition IncrementProcessed :: "StateManager \<Rightarrow> int \<times> StateManager" where
  "IncrementProcessed sm = (processedItems sm + 1, sm\<lparr>processedItems := processedItems sm + 1\<rparr>)"

definition GetProgress :: "StateManager \<Rightarrow> int \<times> int" where
  "GetProgress sm = (processedItems sm, totalItems sm)"

definition Pause :: "StateManager \<Rightarrow> StateManager" where
  "Pause sm = (if status sm = ''running'' then sm\<lparr>isPaused := True, status := ''paused''\<rparr> else sm)"

definition Resume :: "StateManager \<Rightarrow> StateManager" where
  "Resume sm = (if status sm = ''paused'' then sm\<lparr>isPaused := False, status := ''running''\<rparr> else sm)"

text \<open>\<^verbatim>\<open>Cancel\<close> calls the stored cancel function: the second component is the set of
  cancelled contexts.\<close>

definition Cancel :: "StateManager \<Rightarrow> ctx set \<Rightarrow> StateManager \<times> ctx set" where
  "Cancel sm dn =
     (case cancelFunc sm of
        None \<Rightarrow> (sm, dn)
      | Some c \<Rightarrow> (sm\<lparr>status := ''canceled''\<rparr>, insert c dn))"

definition Finish :: "StateManager \<Rightarrow> StateManager" where
  "Finish sm = sm\<lparr>status := ''finished''\<rparr>"

definition IsRunning :: "StateManager \<Rightarrow> bool" where
  "IsRunning sm = (status sm = ''running'' \<or> status sm = ''paused'')"

text \<open>The process state: the global \<^verbatim>\<open>state\<close>, the cancelled contexts, the messages sent
  on \<^verbatim>\<open>hub.broadcast\<close> in order, the next fresh context, and the files under
  \<^verbatim>\<open>collected_data/\<close> (\<open>Some None\<close>: created, no report encoded into it).\<close>

record world =
  state :: StateManager
  cancelled :: "ctx set"
  broadcast :: "WSMessage list"
  next_ctx :: ctx
  disk :: "string \<rightharpoonup> CollectionReport option"

text \<open>\<^verbatim>\<open>var state = &StateManager{status: "idle"}\<close>\<close>

definition initial_state :: StateManager where
  "initial_state =
     \<lparr>status = ''idle'', cancelFunc = None, isPaused = False, processedItems = 0, totalItems = 0\<rparr>"

section \<open>Broadcast helpers (main.go, section 2)\<close>

definition sendLog :: "string \<Rightarrow> world \<Rightarrow> world" where
  "sendLog message w =
     w\<lparr>broadcast := broadcast w @
        [\<lparr>Type = ''log'', Message = message, Total = 0, Processed = 0, Percentage = 0,
          Status = ''''\<rparr>]\<rparr>"

definition sendProgressUpdate :: "string \<Rightarrow> world \<Rightarrow> world" where
  "sendProgressUpdate statusMsg w =
     (let (processed, total) = GetProgress (state w);
          percentage = (if total > 0 then (real_of_int processed / real_of_int total) * 100 else 0)
      in w\<lparr>broadcast := broadcast w @
           [\<lparr>Type = ''progress'', Message = statusMsg, Total = total, Processed = processed,
             Percentage = percentage, Status = status (state w)\<rparr>]\<rparr>)"

section \<open>HTTP handlers (main.go, section 4)\<close>

text \<open>\<^verbatim>\<open>handleCollect\<close> up to the \<^verbatim>\<open>go CollectFiles(ctx, req.Path, req.Type)\<close> statement: the
  HTTP status, the new process state, and the arguments of the launched collection
  when one is launched.\<close>

definition handleCollect :: "string \<Rightarrow> string \<Rightarrow> world \<Rightarrow> nat \<times> world \<times> (ctx \<times> string \<times> string) option" where
  "handleCollect reqPath reqType w =
     (if IsRunning (state w) then (409, w, None)
      else let c = next_ctx w;
               w1 = w\<lparr>next_ctx := Suc c\<rparr>;
               w2 = w1\<lparr>state := Start c c (state w1)\<rparr>
           in (200, w2, Some (c, reqPath, reqType)))"

text \<open>Sequences of the control operations of \<^verbatim>\<open>StateManager\<close>, applied left to right.\<close>

datatype sm_op = OpPause | OpResume | OpCancel | OpFinish

fun apply_op :: "sm_op \<Rightarrow> StateManager \<times> ctx set \<Rightarrow> StateManager \<times> ctx set" where
  "apply_op OpPause (sm, dn) = (Pause sm, dn)"
| "apply_op OpResume (sm, dn) = (Resume sm, dn)"
| "apply_op OpCancel (sm, dn) = Cancel sm dn"
| "apply_op OpFinish (sm, dn) = (Finish sm, dn)"

fun apply_ops :: "sm_op list \<Rightarrow> StateManager \<times> ctx set \<Rightarrow> StateManager \<times> ctx set" where
  "apply_ops [] s = s"
| "apply_ops (x # xs) s = apply_ops xs (apply_op x s)"

definition terminal :: "StateManager \<Rightarrow> bool" where
  "terminal sm = (status sm = ''canceled'' \<or> status sm = ''finished'')"

section \<open>Core logic (main.go, section 3)\<close>

type_synonym error = string

subsection \<open>The pause and cancel checkpoint\<close>

text \<open>
  \<^verbatim>\<open>checkPauseAndCancel\<close> waits on what other goroutines do, so what they do is an input:
  \<open>cancel_at\<close> is the instant (in milliseconds) at which the context is cancelled
  (\<open>None\<close>: never), and \<open>paused_at u\<close> is what \<^verbatim>\<open>state.isPaused.Load()\<close> returns at
  instant \<open>u\<close>. The clock is explicit: the function is entered at instant \<open>t\<close> and
  returns the error (\<open>None\<close> is \<^verbatim>\<open>nil\<close>) with the instant of its return. Only waiting
  takes time: \<^verbatim>\<open>time.After(500 * time.Millisecond)\<close> fires 500 ms after the
  \<^verbatim>\<open>select\<close> is entered, and a \<^verbatim>\<open>select\<close> whose \<^verbatim>\<open>ctx.Done()\<close> case becomes ready no
  later than the timer returns at that instant. A loop that is never left has no
  result (\<open>None\<close>).
\<close>

record signals =
  cancel_at :: "nat option"
  paused_at :: "nat \<Rightarrow> bool"

definition ctx_done :: "signals \<Rightarrow> nat \<Rightarrow> bool" where
  "ctx_done sg t = (case cancel_at sg of None \<Rightarrow> False | Some c \<Rightarrow> c \<le> t)"

partial_function (option) pause_loop :: "signals \<Rightarrow> nat \<Rightarrow> (error option \<times> nat) option" where
  "pause_loop sg t =
     (if paused_at sg t then
        (case cancel_at sg of
           None \<Rightarrow> pause_loop sg (t + 500)
         | Some c \<Rightarrow> if c \<le> t + 500 then Some (Some ''context canceled'', max t c)
                     else pause_loop sg (t + 500))
      else Some (None, t))"

declare pause_loop.simps [code]

definition checkPauseAndCancel :: "signals \<Rightarrow> nat \<Rightarrow> (error option \<times> nat) option" where
  "checkPauseAndCancel sg t =
     (if ctx_done sg t then Some (Some ''context canceled'', t) else pause_loop sg t)"

subsection \<open>What a collection meets outside the program\<close>

text \<open>
  One entry per call of the \<^verbatim>\<open>filepath.Walk\<close> callback, in the order of the walk when
  the callback returns \<^verbatim>\<open>nil\<close> every time: the path, \<^verbatim>\<open>info.IsDir()\<close>, and the error
  handed to the callback.
\<close>

record walk_entry =
  path :: string
  is_dir :: bool
  err :: "error option"

text \<open>Requests of the operator, served by \<^verbatim>\<open>handlePause\<close>, \<^verbatim>\<open>handleResume\<close> and
  \<^verbatim>\<open>handleCancel\<close>.\<close>

datatype control = PauseRequest | ResumeRequest | CancelRequest

text \<open>
  The environment of one run of \<^verbatim>\<open>CollectFiles\<close>: what the two walks visit (the tree
  may change between them), \<^verbatim>\<open>os.Stat\<close> (size and modification time), \<^verbatim>\<open>os.Open\<close>,
  \<^verbatim>\<open>io.Copy\<close> into the SHA-256 hash (the digest in hexadecimal), \<^verbatim>\<open>filepath.Rel\<close>,
  the clock and its formatted form, whether \<^verbatim>\<open>os.Create\<close> and the JSON encoder
  succeed, and the operator's requests: \<open>requests k\<close> are served between the end
  of the work on job \<open>k - 1\<close> and the checkpoint of job \<open>k\<close>, and \<open>requests_at_close\<close>
  are served between the close of \<^verbatim>\<open>results\<close> and the collector's reading of
  \<^verbatim>\<open>ctx.Err()\<close>.
\<close>

record env =
  count_pass :: "walk_entry list"
  stream_pass :: "walk_entry list"
  os_Stat :: "string \<Rightarrow> error + int \<times> nat"
  os_Open :: "string \<Rightarrow> error option"
  io_Copy :: "string \<Rightarrow> error + string"
  filepath_Rel :: "string \<Rightarrow> string \<Rightarrow> string"
  time_Now :: nat
  time_Format :: string
  os_Create_ok :: bool
  Encode_ok :: bool
  requests :: "nat \<Rightarrow> control list"
  requests_at_close :: "control list"

definition handlePause :: "world \<Rightarrow> world" where
  "handlePause w =
     sendProgressUpdate ''Pausado''
       (sendLog (''Opera'' @ [CHR 0xC3, CHR 0xA7, CHR 0xC3, CHR 0xA3] @ ''o pausada.'')
          (w\<lparr>state := Pause (state w)\<rparr>))"

definition handleResume :: "world \<Rightarrow> world" where
  "handleResume w =
     sendProgressUpdate ''Executando...''
       (sendLog (''Opera'' @ [CHR 0xC3, CHR 0xA7, CHR 0xC3, CHR 0xA3] @ ''o retomada.'')
          (w\<lparr>state := Resume (state w)\<rparr>))"

definition handleCancel :: "world \<Rightarrow> world" where
  "handleCancel w =
     (case Cancel (state w) (cancelled w) of (sm, dn) \<Rightarrow> w\<lparr>state := sm, cancelled := dn\<rparr>)"

fun serve :: "control list \<Rightarrow> world \<Rightarrow> world" where
  "serve [] w = w"
| "serve (PauseRequest # rs) w = serve rs (handlePause w)"
| "serve (ResumeRequest # rs) w = serve rs (handleResume w)"
| "serve (CancelRequest # rs) w = serve rs (handleCancel w)"

subsection \<open>Helpers\<close>

definition calculateHash :: "env \<Rightarrow> string \<Rightarrow> error + string" where
  "calculateHash e filePath =
     (case os_Open e filePath of
        Some er \<Rightarrow> Inl er
      | None \<Rightarrow> (case io_Copy e filePath of Inl er \<Rightarrow> Inl er | Inr digest \<Rightarrow> Inr digest))"

text \<open>\<^verbatim>\<open>fmt.Sprintf("%d", n)\<close>\<close>

function show_nat :: "nat \<Rightarrow> string" where
  "show_nat n = (if n < 10 then [char_of (48 + n)] else show_nat (n div 10) @ [char_of (48 + n mod 10)])"
  by pat_completeness auto
termination
  by (relation "measure id") auto

definition show_int :: "int \<Rightarrow> string" where
  "show_int i = (if i < 0 then CHR ''-'' # show_nat (nat (- i)) else show_nat (nat i))"

subsection \<open>The collector\<close>

text \<open>The count pass: errors are swallowed.\<close>

fun count_walk :: "walk_entry list \<Rightarrow> int \<Rightarrow> int" where
  "count_walk [] totalFiles = totalFiles"
| "count_walk (x # xs) totalFiles =
     count_walk xs (if err x = None \<and> \<not> is_dir x then totalFiles + 1 else totalFiles)"

text \<open>
  The stream pass: the paths pushed to \<^verbatim>\<open>jobs\<close>, and what \<^verbatim>\<open>filepath.Walk\<close> returns.
  An error handed to the callback is returned by it, which ends the walk. (The
  \<^verbatim>\<open>ctx.Done()\<close> case of the push ends the pass after a cancellation, when no worker
  works on a job any more.)
\<close>

fun stream_walk :: "walk_entry list \<Rightarrow> string list \<times> error option" where
  "stream_walk [] = ([], None)"
| "stream_walk (x # xs) =
     (case err x of
        Some er \<Rightarrow> ([], Some er)
      | None \<Rightarrow>
          if \<not> is_dir x then (case stream_walk xs of (js, r) \<Rightarrow> (path x # js, r))
          else stream_walk xs)"

text \<open>The \<^verbatim>\<open>results\<close> channel: what was sent on it, and whether it is closed. The
  collector receives concurrently, so a send on the open channel never blocks.\<close>

record results_chan =
  items :: "FileMetadata list"
  is_closed :: bool

text \<open>While one checkpoint of the run below is executed no request is served, so
  the signals it sees are constant.\<close>

definition signals_of :: "ctx \<Rightarrow> world \<Rightarrow> signals" where
  "signals_of c w =
     \<lparr>cancel_at = (if c \<in> cancelled w then Some 0 else None),
      paused_at = (\<lambda>u. isPaused (state w))\<rparr>"

text \<open>Lines 276 to 283 of the worker: send the record, count it, report it, and close
  \<^verbatim>\<open>results\<close> when the count is the total. A send on a closed channel panics.\<close>

definition emit :: "env \<Rightarrow> string \<Rightarrow> int \<Rightarrow> string \<Rightarrow> int \<times> nat \<Rightarrow> string \<Rightarrow>
    world \<times> results_chan \<Rightarrow> error + world \<times> results_chan" where
  "emit e rootPath totalFiles p info h s =
     (case s of (w, res) \<Rightarrow>
        let relPath = filepath_Rel e rootPath p in
        if is_closed res then Inl ''send on closed channel''
        else
          let res1 = res\<lparr>items := items res @
                        [\<lparr>Path = relPath, Size = fst info, ModTime = snd info, Hash = h\<rparr>]\<rparr>;
              (processedCount, sm) = IncrementProcessed (state w);
              w1 = sendProgressUpdate (''Coletado: '' @ relPath) (w\<lparr>state := sm\<rparr>)
          in Inr (w1, if processedCount = totalFiles then res1\<lparr>is_closed := True\<rparr> else res1))"

text \<open>
  One worker taking the jobs in order; \<open>k\<close> is the number of the next job. The result
  is \<open>None\<close> when the worker never leaves a checkpoint, \<open>Inl\<close> when it panics, and
  otherwise the state in which it returns.
\<close>

fun worker :: "env \<Rightarrow> ctx \<Rightarrow> string \<Rightarrow> int \<Rightarrow> nat \<Rightarrow> string list \<Rightarrow>
    world \<times> results_chan \<Rightarrow> (error + world \<times> results_chan) option" where
  "worker e c rootPath totalFiles k [] s = Some (Inr s)"
| "worker e c rootPath totalFiles k (p # jobs) s =
     (case s of (w, res) \<Rightarrow>
        let w0 = serve (requests e k) w in
        case checkPauseAndCancel (signals_of c w0) 0 of
          None \<Rightarrow> None
        | Some (Some er, t) \<Rightarrow> Some (Inr (w0, res))
        | Some (None, t) \<Rightarrow>
            (case os_Stat e p of
               Inl er \<Rightarrow>
                 worker e c rootPath totalFiles (Suc k) jobs
                   (sendLog (''ERRO: '' @ p @ '': '' @ er) w0, res)
             | Inr info \<Rightarrow>
                 (case calculateHash e p of
                    Inl er \<Rightarrow>
                      worker e c rootPath totalFiles (Suc k) jobs
                        (sendLog (''ERRO hash '' @ p @ '': '' @ er) w0, res)
                  | Inr h \<Rightarrow>
                      (case emit e rootPath totalFiles p info h (w0, res) of
                         Inl panic \<Rightarrow> Some (Inl panic)
                       | Inr s' \<Rightarrow> worker e c rootPath totalFiles (Suc k) jobs s'))))"

text \<open>Lines 320 to 328: the report is assembled and written, then success is reported.\<close>

definition report_name :: "env \<Rightarrow> string \<Rightarrow> string" where
  "report_name e reportType = ''collected_data/'' @ reportType @ ''_'' @ time_Format e @ ''.json''"

definition save_report :: "env \<Rightarrow> string \<Rightarrow> string \<Rightarrow> FileMetadata list \<Rightarrow> world \<Rightarrow> world" where
  "save_report e rootPath reportType collectedFiles w =
     (let report = \<lparr>ReportType = reportType, RootPath = rootPath, Files = collectedFiles,
                    Timestamp = time_Now e\<rparr>;
          fileName = report_name e reportType;
          w1 = (if os_Create_ok e
                then w\<lparr>disk := (disk w)(fileName \<mapsto> (if Encode_ok e then Some report else None))\<rparr>
                else w);
          w2 = sendLog (''Coleta finalizada! Relat'' @ [CHR 0xC3, CHR 0xB3] @ ''rio salvo em: '' @ fileName) w1;
          w3 = w2\<lparr>state := Finish (state w2)\<rparr>
      in sendProgressUpdate ''Coleta finalizada!'' w3)"

text \<open>
  \<^verbatim>\<open>CollectFiles\<close> with one worker. The collector leaves \<^verbatim>\<open>for res := range results\<close>
  when \<^verbatim>\<open>results\<close> is closed. The worker closes it at the end of a job, so the collector
  goes on when the worker has done \<open>n\<close> jobs, for the least \<open>n\<close> after which the channel
  is closed; when there is none, the collector never returns (\<open>None\<close>). It then reads
  \<^verbatim>\<open>ctx.Err()\<close> (line 311), and either reports the cancellation and returns at once, or
  waits for the worker (\<^verbatim>\<open>wg.Wait()\<close>, line 318), which goes on with the jobs that are
  left, and then writes the report of the records it has received. What
  \<^verbatim>\<open>filepath.Walk\<close> returns in the stream pass is dropped, as in the source.
\<close>

definition closed_after :: "env \<Rightarrow> ctx \<Rightarrow> string \<Rightarrow> int \<Rightarrow> string list \<Rightarrow>
    world \<times> results_chan \<Rightarrow> nat \<Rightarrow> bool" where
  "closed_after e c rootPath totalFiles jobs s n =
     (case worker e c rootPath totalFiles 0 (take n jobs) s of
        Some (Inr (w, res)) \<Rightarrow> is_closed res
      | _ \<Rightarrow> False)"

definition CollectFiles :: "env \<Rightarrow> ctx \<Rightarrow> string \<Rightarrow> string \<Rightarrow> world \<Rightarrow> (error + world) option" where
  "CollectFiles e c rootPath reportType w =
     (let w1 = sendLog (''Iniciando contagem de arquivos em: '' @ rootPath) w;
          totalFiles = count_walk (count_pass e) 0;
          w2 = w1\<lparr>state := SetTotal totalFiles (state w1)\<rparr>;
          w3 = sendLog (''Total de arquivos encontrados: '' @ show_int totalFiles) w2;
          w4 = sendProgressUpdate ''Iniciando coleta...'' w3;
          jobs = fst (stream_walk (stream_pass e));
          s0 = (w4, \<lparr>items = [], is_closed = False\<rparr>)
      in case find (closed_after e c rootPath totalFiles jobs s0) [0..<Suc (length jobs)] of
           None \<Rightarrow> None
         | Some n \<Rightarrow>
             (case worker e c rootPath totalFiles 0 (take n jobs) s0 of
                Some (Inr (w5, res)) \<Rightarrow>
                  let collectedFiles = items res;
                      w6 = serve (requests_at_close e) w5
                  in if c \<in> cancelled w6 then
                       let w7 = sendLog (''Coleta cancelada pelo usu'' @ [CHR 0xC3, CHR 0xA1] @ ''rio.'') w6;
                           w8 = w7\<lparr>state := Finish (state w7)\<rparr>
                       in Some (Inr (sendProgressUpdate ''Coleta cancelada.'' w8))
                     else
                       (case worker e c rootPath totalFiles n (drop n jobs) (w6, res) of
                          None \<Rightarrow> None
                        | Some (Inl panic) \<Rightarrow> Some (Inl panic)
                        | Some (Inr (w9, res9)) \<Rightarrow>
                            Some (Inr (save_report e rootPath reportType collectedFiles w9)))
              | _ \<Rightarrow> None))"

subsection \<open>Vocabulary of the statements\<close>

text \<open>The stat or the hash of a file fails.\<close>

definition item_fails :: "env \<Rightarrow> string \<Rightarrow> bool" where
  "item_fails e p = (isl (os_Stat e p) \<or> isl (calculateHash e p))"

text \<open>The paths of the entries of a walk that are not directories (the entries the
  walk delivers with file information and no error).\<close>

definition non_directory_entries :: "walk_entry list \<Rightarrow> string list" where
  "non_directory_entries xs = map path (filter (\<lambda>x. err x = None \<and> \<not> is_dir x) xs)"

text \<open>A log event with the given text, as \<^verbatim>\<open>sendLog\<close> sends it.\<close>

definition log_event :: "string \<Rightarrow> WSMessage" where
  "log_event message =
     \<lparr>Type = ''log'', Message = message, Total = 0, Processed = 0, Percentage = 0, Status = ''''\<rparr>"

subsection \<open>Names for two parts of the collector\<close>

text \<open>Lines 240 to 250 of \<^verbatim>\<open>CollectFiles\<close>: the count pass and the first messages.\<close>

definition collect_start :: "env \<Rightarrow> string \<Rightarrow> world \<Rightarrow> world" where
  "collect_start e rootPath w =
     sendProgressUpdate ''Iniciando coleta...''
       (sendLog (''Total de arquivos encontrados: '' @ show_int (count_walk (count_pass e) 0))
          ((sendLog (''Iniciando contagem de arquivos em: '' @ rootPath) w)
             \<lparr>state := SetTotal (count_walk (count_pass e) 0)
                         (state (sendLog (''Iniciando contagem de arquivos em: '' @ rootPath) w))\<rparr>))"

text \<open>Lines 312 to 314: what the collector does when it finds the context cancelled.\<close>

definition report_cancelled :: "world \<Rightarrow> world" where
  "report_cancelled w =
     sendProgressUpdate ''Coleta cancelada.''
       ((sendLog (''Coleta cancelada pelo usu'' @ [CHR 0xC3, CHR 0xA1] @ ''rio.'') w)
          \<lparr>state := Finish (state (sendLog (''Coleta cancelada pelo usu'' @ [CHR 0xC3, CHR 0xA1] @ ''rio.'') w))\<rparr>)"

subsection \<open>A concrete tree\<close>

text \<open>
  The tree of the specification's scenario: \<^verbatim>\<open>a.txt\<close> (4 bytes), \<^verbatim>\<open>b.txt\<close> (0 bytes) and
  a subdirectory with \<^verbatim>\<open>c.txt\<close> (10 bytes), unchanged between the two walks, with no
  request of the operator; and the process state right after \<^verbatim>\<open>handleCollect\<close> has
  started a collection in the initial state.
\<close>

definition scenario_walk :: "walk_entry list" where
  "scenario_walk =
     [\<lparr>path = ''/r'', is_dir = True, err = None\<rparr>,
      \<lparr>path = ''/r/a.txt'', is_dir = False, err = None\<rparr>,
      \<lparr>path = ''/r/b.txt'', is_dir = False, err = None\<rparr>,
      \<lparr>path = ''/r/sub'', is_dir = True, err = None\<rparr>,
      \<lparr>path = ''/r/sub/c.txt'', is_dir = False, err = None\<rparr>]"

definition scenario_env :: env where
  "scenario_env =
     \<lparr>count_pass = scenario_walk, stream_pass = scenario_walk,
      os_Stat = (\<lambda>p. if p = ''/r/a.txt'' then Inr (4, 100)
                     else if p = ''/r/b.txt'' then Inr (0, 101)
                     else if p = ''/r/sub/c.txt'' then Inr (10, 102)
                     else Inl ''no such file or directory''),
      os_Open = (\<lambda>p. None),
      io_Copy = (\<lambda>p. Inr (''sha256 of '' @ p)),
      filepath_Rel = (\<lambda>r p. drop (Suc (length r)) p),
      time_Now = 1000, time_Format = ''20260101_120000'',
      os_Create_ok = True, Encode_ok = True,
      requests = (\<lambda>k. []), requests_at_close = []\<rparr>"

definition started_world :: world where
  "started_world =
     fst (snd (handleCollect ''/r'' ''source''
       \<lparr>state = initial_state, cancelled = {}, broadcast = [], next_ctx = 0, disk = Map.empty\<rparr>))"

text \<open>Variations of it: the stat of \<^verbatim>\<open>a.txt\<close> fails; the walk meets a directory it cannot
  read after the files; the operator cancels between the close of \<^verbatim>\<open>results\<close> and the
  collector's reading of \<^verbatim>\<open>ctx.Err()\<close>, or before the second job; a dangling link
  appears between the count pass and the stream pass; a readable file \<^verbatim>\<open>z.txt\<close> appears
  between the passes, behind a directory that cannot be read, or at the end of the
  walk with a cancellation before its checkpoint.\<close>

definition broken_env :: env where
  "broken_env = scenario_env\<lparr>os_Stat := (\<lambda>p. if p = ''/r/a.txt'' then Inl ''permission denied''
                                            else os_Stat scenario_env p)\<rparr>"

definition locked_walk :: "walk_entry list" where
  "locked_walk = scenario_walk @ [\<lparr>path = ''/r/locked'', is_dir = True, err = Some ''permission denied''\<rparr>]"


definition cancel_early_env :: env where
  "cancel_early_env = scenario_env\<lparr>requests := (\<lambda>k. if k = 1 then [CancelRequest] else [])\<rparr>"



definition cancel_after_close_env :: env where
  "cancel_after_close_env = scenario_env
     \<lparr>stream_pass := scenario_walk @ [\<lparr>path = ''/r/z.txt'', is_dir = False, err = None\<rparr>],
      os_Stat := (\<lambda>p. if p = ''/r/z.txt'' then Inr (7, 103) else os_Stat scenario_env p),
      requests := (\<lambda>k. if k = 3 then [CancelRequest] else [])\<rparr>"

section \<open>Theorems\<close>

subsection \<open>Start and the conflict check\<close>

text \<open>
  C1 (as amended). \<^verbatim>\<open>StateManager.Start\<close> has no conflict check of its own: the check is
  the \<^verbatim>\<open>IsRunning\<close> test of the handler. A collect request made while the status is
  running or paused is answered 409 Conflict, launches nothing and leaves the whole
  process state as it was; any other request is answered 200, and \<^verbatim>\<open>Start\<close> has set both
  counters to zero, stored the cancel function of the fresh context, cleared the pause
  flag and set the status to running.
\<close>

theorem handleCollect_conflict_or_start:
  "(IsRunning (state w) \<longrightarrow> handleCollect p t w = (409, w, None)) \<and>
   (\<not> IsRunning (state w) \<longrightarrow>
      (\<exists>w'. handleCollect p t w = (200, w', Some (next_ctx w, p, t)) \<and>
            state w' = \<lparr>status = ''running'', cancelFunc = Some (next_ctx w), isPaused = False,
                        processedItems = 0, totalItems = 0\<rparr> \<and>
            IsRunning (state w') \<and>
            cancelled w' = cancelled w \<and> broadcast w' = broadcast w \<and> disk w' = disk w))"
  by (simp add: handleCollect_def Let_def Start_def IsRunning_def)

theorem handleCollect_conflict_or_start_witness:
  "IsRunning (state \<lparr>state = initial_state\<lparr>status := ''paused'', processedItems := 5, totalItems := 9\<rparr>,
                     cancelled = {}, broadcast = [], next_ctx = 1, disk = Map.empty\<rparr>) \<and>
   fst (handleCollect ''/data'' ''source''
         \<lparr>state = initial_state\<lparr>status := ''paused'', processedItems := 5, totalItems := 9\<rparr>,
          cancelled = {}, broadcast = [], next_ctx = 1, disk = Map.empty\<rparr>) = 409 \<and>
   \<not> IsRunning (state \<lparr>state = initial_state\<lparr>status := ''finished'', processedItems := 5, totalItems := 9\<rparr>,
                     cancelled = {}, broadcast = [], next_ctx = 1, disk = Map.empty\<rparr>) \<and>
   fst (handleCollect ''/data'' ''source''
         \<lparr>state = initial_state\<lparr>status := ''finished'', processedItems := 5, totalItems := 9\<rparr>,
          cancelled = {}, broadcast = [], next_ctx = 1, disk = Map.empty\<rparr>) = 200"
  using handleCollect_conflict_or_start
    [of "\<lparr>state = initial_state\<lparr>status := ''paused'', processedItems := 5, totalItems := 9\<rparr>,
          cancelled = {}, broadcast = [], next_ctx = 1, disk = Map.empty\<rparr>" "''/data''" "''source''"]
    handleCollect_conflict_or_start
    [of "\<lparr>state = initial_state\<lparr>status := ''finished'', processedItems := 5, totalItems := 9\<rparr>,
          cancelled = {}, broadcast = [], next_ctx = 1, disk = Map.empty\<rparr>" "''/data''" "''source''"]
  by (auto simp add: IsRunning_def initial_state_def)

text \<open>\<^verbatim>\<open>Start\<close> called on a running operation does not fail and does not keep the
  counters or the cancel function.\<close>

theorem Start_while_running_resets:
  "IsRunning \<lparr>status = ''running'', cancelFunc = Some 0, isPaused = False,
              processedItems = 5, totalItems = 9\<rparr> \<and>
   Start 1 1 \<lparr>status = ''running'', cancelFunc = Some 0, isPaused = False,
              processedItems = 5, totalItems = 9\<rparr> =
     \<lparr>status = ''running'', cancelFunc = Some 1, isPaused = False,
      processedItems = 0, totalItems = 0\<rparr> \<and>
   processedItems (Start 1 1 \<lparr>status = ''running'', cancelFunc = Some 0, isPaused = False,
              processedItems = 5, totalItems = 9\<rparr>) \<noteq> 5"
  by (simp add: Start_def IsRunning_def)

subsection \<open>The percentage of a progress event\<close>





subsection \<open>Terminal statuses\<close>

lemma apply_op_terminal:
  "terminal (fst s) \<Longrightarrow> terminal (fst (apply_op x s))"
  by (cases x; cases s)
     (auto simp: terminal_def Pause_def Resume_def Cancel_def Finish_def split: option.splits)

text \<open>
  C7 (as amended). The set \<open>{canceled, finished}\<close> is closed under every sequence of
  \<^verbatim>\<open>Pause\<close>, \<^verbatim>\<open>Resume\<close>, \<^verbatim>\<open>Cancel\<close> and \<^verbatim>\<open>Finish\<close>: \<^verbatim>\<open>Pause\<close> and \<^verbatim>\<open>Resume\<close> leave a
  terminal status as it is, \<^verbatim>\<open>Cancel\<close> (with a stored cancel function) sets it to
  canceled and \<^verbatim>\<open>Finish\<close> to finished, so \<^verbatim>\<open>IsRunning\<close> stays false. Only
  \<^verbatim>\<open>Start\<close> leaves the set, by setting the status to running.
\<close>

theorem terminal_closed_under_control_ops:
  assumes "terminal sm"
  shows "terminal (fst (apply_ops ops (sm, dn))) \<and>
         \<not> IsRunning (fst (apply_ops ops (sm, dn))) \<and>
         status (Pause sm) = status sm \<and> status (Resume sm) = status sm \<and>
         status (Finish sm) = ''finished'' \<and>
         status (fst (Cancel sm dn)) = (if cancelFunc sm = None then status sm else ''canceled'') \<and>
         status (Start c f sm) = ''running'' \<and> \<not> terminal (Start c f sm)"
proof -
  have step: "terminal (fst s) \<Longrightarrow> terminal (fst (apply_ops ops s))" for s
  proof (induction ops arbitrary: s)
    case Nil
    then show ?case by simp
  next
    case (Cons x xs)
    then show ?case by (simp add: apply_op_terminal)
  qed
  have t: "terminal (fst (apply_ops ops (sm, dn)))"
    using step [of "(sm, dn)"] assms by simp
  then have "\<not> IsRunning (fst (apply_ops ops (sm, dn)))"
    by (auto simp: terminal_def IsRunning_def)
  with t assms show ?thesis
    by (auto simp: terminal_def Pause_def Resume_def Finish_def Cancel_def Start_def
             split: option.splits)
qed

theorem terminal_closed_under_control_ops_witness:
  "terminal (initial_state\<lparr>status := ''canceled'', cancelFunc := Some 0\<rparr>) \<and>
   terminal (fst (apply_ops [OpPause, OpFinish, OpResume, OpCancel]
                    (initial_state\<lparr>status := ''canceled'', cancelFunc := Some 0\<rparr>, {})))"
proof -
  have h: "terminal (initial_state\<lparr>status := ''canceled'', cancelFunc := Some 0\<rparr>)"
    by (simp add: terminal_def initial_state_def)
  show ?thesis
    using h terminal_closed_under_control_ops [OF h, of "[OpPause, OpFinish, OpResume, OpCancel]" "{}"]
    by simp
qed

text \<open>\<^verbatim>\<open>Finish\<close> takes canceled to finished, and \<^verbatim>\<open>Cancel\<close> takes finished to canceled:
  a terminal status does not stay what it was.\<close>

theorem terminal_status_changes:
  "status (fst (apply_ops [OpFinish]
      (\<lparr>status = ''canceled'', cancelFunc = Some 0, isPaused = False,
        processedItems = 3, totalItems = 9\<rparr>, {0}))) = ''finished'' \<and>
   status (fst (apply_ops [OpCancel]
      (\<lparr>status = ''finished'', cancelFunc = Some 0, isPaused = False,
        processedItems = 9, totalItems = 9\<rparr>, {}))) = ''canceled''"
  by (simp add: Finish_def Cancel_def)

subsection \<open>The pause and cancel checkpoint\<close>

lemma pause_loop_cancel:
  "cancel_at sg = Some c \<Longrightarrow>
   \<exists>res t'. pause_loop sg t = Some (res, t') \<and> t \<le> t' \<and> t' \<le> max t c \<and>
     (res = None \<longrightarrow> \<not> paused_at sg t') \<and> (res \<noteq> None \<longrightarrow> res = Some ''context canceled'' \<and> t' = max t c)"
proof (induction "c - t" arbitrary: t rule: less_induct)
  case less
  show ?case
  proof (cases "paused_at sg t")
    case False
    then show ?thesis by (subst pause_loop.simps) simp
  next
    case True
    show ?thesis
    proof (cases "c \<le> t + 500")
      case True
      with \<open>paused_at sg t\<close> less.prems show ?thesis
        by (subst pause_loop.simps) simp
    next
      case False
      then have "c - (t + 500) < c - t" by simp
      from less.hyps [OF this less.prems]
      obtain res t' where r: "pause_loop sg (t + 500) = Some (res, t')" "t + 500 \<le> t'" "t' \<le> max (t + 500) c"
        "res = None \<longrightarrow> \<not> paused_at sg t'" "res \<noteq> None \<longrightarrow> res = Some ''context canceled'' \<and> t' = max (t + 500) c"
        by blast
      have "pause_loop sg t = pause_loop sg (t + 500)"
        using True False less.prems by (subst pause_loop.simps) simp
      with r False show ?thesis by (auto simp: max_def)
    qed
  qed
qed

lemma pause_loop_still_paused:
  "cancel_at sg = Some c \<Longrightarrow> \<forall>u. t \<le> u \<and> u \<le> c \<longrightarrow> paused_at sg u \<Longrightarrow> t \<le> c \<Longrightarrow>
   pause_loop sg t = Some (Some ''context canceled'', c)"
proof (induction "c - t" arbitrary: t rule: less_induct)
  case less
  have p: "paused_at sg t" using less.prems by simp
  show ?case
  proof (cases "c \<le> t + 500")
    case True
    with p less.prems show ?thesis by (subst pause_loop.simps) (simp add: max_def)
  next
    case False
    then have d: "c - (t + 500) < c - t" by simp
    have "pause_loop sg (t + 500) = Some (Some ''context canceled'', c)"
      using less.hyps [OF d less.prems(1)] less.prems(2) False by simp
    moreover have "pause_loop sg t = pause_loop sg (t + 500)"
      using p False less.prems by (subst pause_loop.simps) simp
    ultimately show ?thesis by simp
  qed
qed

lemma pause_loop_resume:
  "\<forall>u\<ge>r. \<not> paused_at sg u \<Longrightarrow>
   \<exists>res t'. pause_loop sg t = Some (res, t') \<and> t \<le> t' \<and> (r \<le> t \<longrightarrow> t' = t) \<and> (t < r \<longrightarrow> t' < r + 500)"
proof (induction "r - t" arbitrary: t rule: less_induct)
  case less
  show ?case
  proof (cases "paused_at sg t")
    case False
    then show ?thesis by (subst pause_loop.simps) simp
  next
    case True
    then have tr: "t < r" using less.prems by (meson not_le_imp_less)
    then have d: "r - (t + 500) < r - t" by simp
    from less.hyps [OF d less.prems]
    obtain res t' where r: "pause_loop sg (t + 500) = Some (res, t')" "t + 500 \<le> t'"
      "r \<le> t + 500 \<longrightarrow> t' = t + 500" "t + 500 < r \<longrightarrow> t' < r + 500"
      by blast
    have later: "\<exists>res t'. pause_loop sg (t + 500) = Some (res, t') \<and> t \<le> t' \<and> t' < r + 500"
      using r tr by (cases "r \<le> t + 500") auto
    show ?thesis
    proof (cases "cancel_at sg")
      case None
      then have "pause_loop sg t = pause_loop sg (t + 500)"
        using True by (subst pause_loop.simps) simp
      with later tr show ?thesis by auto
    next
      case (Some c)
      show ?thesis
      proof (cases "c \<le> t + 500")
        case True
        then have "pause_loop sg t = Some (Some ''context canceled'', max t c)"
          using Some \<open>paused_at sg t\<close> by (subst pause_loop.simps) simp
        with True tr show ?thesis by (auto simp: max_def)
      next
        case False
        then have "pause_loop sg t = pause_loop sg (t + 500)"
          using Some \<open>paused_at sg t\<close> by (subst pause_loop.simps) simp
        with later tr show ?thesis by auto
      qed
    qed
  qed
qed

lemma pause_loop_nil:
  assumes run: "pause_loop sg t = Some (None, t')"
  shows "\<exists>k. t' = t + 500 * k \<and> \<not> paused_at sg t' \<and> (\<forall>j<k. paused_at sg (t + 500 * j))"
  using run
proof (induction sg t "(None :: error option, t')" rule: pause_loop.raw_induct)
  case (1 f sg t)
  show ?case
  proof (cases "paused_at sg t")
    case False
    with 1(2) show ?thesis by (intro exI [of _ 0]) simp
  next
    case True
    with 1(2) have a: "f sg (t + 500) = Some (None, t')"
      by (auto split: option.splits if_splits)
    have b: "pause_loop sg (t + 500) = Some (None, t')"
      using 1(3) True by (subst (asm) pause_loop.simps) (auto split: option.splits if_splits)
    from 1(1) [OF a b] obtain k where k: "t' = t + 500 + 500 * k" "\<not> paused_at sg t'"
      "\<forall>j<k. paused_at sg (t + 500 + 500 * j)" by blast
    have "\<forall>j<Suc k. paused_at sg (t + 500 * j)"
    proof (intro allI impI)
      fix j assume "j < Suc k"
      show "paused_at sg (t + 500 * j)"
      proof (cases j)
        case 0
        with True show ?thesis by simp
      next
        case (Suc i)
        with \<open>j < Suc k\<close> k(3) have "paused_at sg (t + 500 + 500 * i)" by simp
        with Suc show ?thesis by (simp add: algebra_simps)
      qed
    qed
    with k show ?thesis by (intro exI [of _ "Suc k"]) (simp add: algebra_simps)
  qed
qed (rule run)

lemma pause_loop_forever:
  assumes run: "pause_loop sg t = Some y" and never: "cancel_at sg = None"
  shows "\<exists>u. \<not> paused_at sg u"
  using run never
proof (induction sg t y rule: pause_loop.raw_induct)
  case (1 f sg t y)
  show ?case
  proof (cases "paused_at sg t")
    case False
    then show ?thesis by auto
  next
    case True
    with 1(4) have e: "pause_loop sg t = pause_loop sg (t + 500)"
      by (subst pause_loop.simps) simp
    from True 1(2,4) have "f sg (t + 500) = Some y" by simp
    from 1(1) [OF this] e 1(3,4) show ?thesis by simp
  qed
qed (rule run)

lemma pause_loop_error:
  assumes run: "pause_loop sg t = Some (Some er, t')"
  shows "cancel_at sg \<noteq> None"
  using run
proof (induction sg t "(Some er, t')" rule: pause_loop.raw_induct)
  case (1 f sg t)
  show ?case
  proof (cases "paused_at sg t \<and> cancel_at sg = None")
    case False
    with 1(2) show ?thesis by (auto split: if_splits)
  next
    case True
    then have e: "pause_loop sg t = pause_loop sg (t + 500)"
      by (subst pause_loop.simps) simp
    from True 1(2) have "f sg (t + 500) = Some (Some er, t')" by simp
    from 1(1) [OF this] e 1(3) show ?thesis by simp
  qed
qed (rule run)

text \<open>
  C9. A checkpoint entered at instant \<open>t\<close> with the pause flag set polls the flag every
  500 ms. If the context is cancelled at instant \<open>c\<close> the checkpoint has returned by
  \<open>max t c\<close>, that is by the instant of the cancellation (or at once when it was
  cancelled before), and when the flag is still set all that time it returns the
  cancellation error, at that instant. If the flag is clear from instant \<open>r\<close> on, the
  checkpoint has returned before \<open>r + 500\<close>. A return of \<^verbatim>\<open>nil\<close> happens at a poll, a
  positive multiple of 500 ms after \<open>t\<close>, the first one at which the flag is clear. With
  the flag set for ever and no cancellation the checkpoint does not return.
\<close>

theorem checkPauseAndCancel_paused:
  assumes paused: "paused_at sg t"
  shows "(cancel_at sg = Some c \<longrightarrow>
           (\<exists>res t'. checkPauseAndCancel sg t = Some (res, t') \<and> t \<le> t' \<and> t' \<le> max t c)) \<and>
         (cancel_at sg = Some c \<and> (\<forall>u. t \<le> u \<and> u \<le> c \<longrightarrow> paused_at sg u) \<longrightarrow>
           checkPauseAndCancel sg t = Some (Some ''context canceled'', max t c)) \<and>
         ((\<forall>u\<ge>r. \<not> paused_at sg u) \<longrightarrow>
           (\<exists>res t'. checkPauseAndCancel sg t = Some (res, t') \<and> t \<le> t' \<and> t' < r + 500)) \<and>
         (checkPauseAndCancel sg t = Some (None, t') \<longrightarrow>
           (\<exists>k>0. t' = t + 500 * k \<and> \<not> paused_at sg t' \<and> (\<forall>j<k. paused_at sg (t + 500 * j)))) \<and>
         (cancel_at sg = None \<and> (\<forall>u. paused_at sg u) \<longrightarrow> checkPauseAndCancel sg t = None)"
proof (intro conjI impI)
  assume c: "cancel_at sg = Some c"
  show "\<exists>res t'. checkPauseAndCancel sg t = Some (res, t') \<and> t \<le> t' \<and> t' \<le> max t c"
  proof (cases "c \<le> t")
    case True
    with c show ?thesis by (simp add: checkPauseAndCancel_def ctx_done_def)
  next
    case False
    with c have "checkPauseAndCancel sg t = pause_loop sg t"
      by (simp add: checkPauseAndCancel_def ctx_done_def)
    with pause_loop_cancel [OF c, of t] show ?thesis by auto
  qed
next
  assume "cancel_at sg = Some c \<and> (\<forall>u. t \<le> u \<and> u \<le> c \<longrightarrow> paused_at sg u)"
  then have c: "cancel_at sg = Some c" and p: "\<forall>u. t \<le> u \<and> u \<le> c \<longrightarrow> paused_at sg u"
    by auto
  show "checkPauseAndCancel sg t = Some (Some ''context canceled'', max t c)"
  proof (cases "c \<le> t")
    case True
    with c show ?thesis by (simp add: checkPauseAndCancel_def ctx_done_def max_def)
  next
    case False
    with c have "checkPauseAndCancel sg t = pause_loop sg t"
      by (simp add: checkPauseAndCancel_def ctx_done_def)
    with pause_loop_still_paused [OF c p] False show ?thesis by (simp add: max_def)
  qed
next
  assume r: "\<forall>u\<ge>r. \<not> paused_at sg u"
  with paused have tr: "t < r" by (meson not_le_imp_less)
  show "\<exists>res t'. checkPauseAndCancel sg t = Some (res, t') \<and> t \<le> t' \<and> t' < r + 500"
  proof (cases "ctx_done sg t")
    case True
    with tr show ?thesis by (simp add: checkPauseAndCancel_def)
  next
    case False
    then have "checkPauseAndCancel sg t = pause_loop sg t"
      by (simp add: checkPauseAndCancel_def)
    with pause_loop_resume [OF r, of t] tr show ?thesis by auto
  qed
next
  assume ret: "checkPauseAndCancel sg t = Some (None, t')"
  then have "pause_loop sg t = Some (None, t')"
    by (simp add: checkPauseAndCancel_def split: if_splits)
  from pause_loop_nil [OF this] obtain k where
    k: "t' = t + 500 * k" "\<not> paused_at sg t'" "\<forall>j<k. paused_at sg (t + 500 * j)"
    by blast
  with paused have "0 < k" by (cases k) auto
  with k show "\<exists>k>0. t' = t + 500 * k \<and> \<not> paused_at sg t' \<and> (\<forall>j<k. paused_at sg (t + 500 * j))"
    by blast
next
  assume "cancel_at sg = None \<and> (\<forall>u. paused_at sg u)"
  then have n: "cancel_at sg = None" and p: "\<forall>u. paused_at sg u" by auto
  have "pause_loop sg t = None"
  proof (cases "pause_loop sg t")
    case (Some y)
    from pause_loop_forever [OF Some n] p show ?thesis by simp
  qed simp
  with n show "checkPauseAndCancel sg t = None"
    by (simp add: checkPauseAndCancel_def ctx_done_def)
qed

theorem checkPauseAndCancel_paused_witness:
  "checkPauseAndCancel \<lparr>cancel_at = Some 1200, paused_at = (\<lambda>u. True)\<rparr> 0 =
     Some (Some ''context canceled'', 1200) \<and>
   checkPauseAndCancel \<lparr>cancel_at = None, paused_at = (\<lambda>u. u < 700)\<rparr> 0 = Some (None, 1000) \<and>
   checkPauseAndCancel \<lparr>cancel_at = None, paused_at = (\<lambda>u. True)\<rparr> 0 = None"
proof (intro conjI)
  show "checkPauseAndCancel \<lparr>cancel_at = Some 1200, paused_at = (\<lambda>u. True)\<rparr> 0 =
     Some (Some ''context canceled'', 1200)"
    using checkPauseAndCancel_paused [of "\<lparr>cancel_at = Some 1200, paused_at = (\<lambda>u. True)\<rparr>" 0 1200]
    by simp
  show "checkPauseAndCancel \<lparr>cancel_at = None, paused_at = (\<lambda>u. True)\<rparr> 0 = None"
    using checkPauseAndCancel_paused [of "\<lparr>cancel_at = None, paused_at = (\<lambda>u. True)\<rparr>" 0]
    by simp
  have b: "checkPauseAndCancel \<lparr>cancel_at = None, paused_at = (\<lambda>u. u < 700)\<rparr> 0 = Some (None, 1000)"
    apply (simp add: checkPauseAndCancel_def ctx_done_def)
    apply (subst pause_loop.simps, simp)
    apply (subst pause_loop.simps, simp)
    apply (subst pause_loop.simps, simp)
    done
  show "checkPauseAndCancel \<lparr>cancel_at = None, paused_at = (\<lambda>u. u < 700)\<rparr> 0 = Some (None, 1000)"
    using checkPauseAndCancel_paused [of "\<lparr>cancel_at = None, paused_at = (\<lambda>u. u < 700)\<rparr>" 0 0 700 1000] b
    by simp
qed

subsection \<open>Frame lemmas: what the helpers and the handlers leave alone\<close>

lemma sendLog_fields [simp]:
  "state (sendLog m w) = state w"
  "cancelled (sendLog m w) = cancelled w"
  "disk (sendLog m w) = disk w"
  "next_ctx (sendLog m w) = next_ctx w"
  "broadcast (sendLog m w) = broadcast w @ [log_event m]"
  by (simp_all add: sendLog_def log_event_def)

lemma sendProgressUpdate_fields [simp]:
  "state (sendProgressUpdate m w) = state w"
  "cancelled (sendProgressUpdate m w) = cancelled w"
  "disk (sendProgressUpdate m w) = disk w"
  "next_ctx (sendProgressUpdate m w) = next_ctx w"
  "set (broadcast w) \<subseteq> set (broadcast (sendProgressUpdate m w))"
  by (auto simp add: sendProgressUpdate_def GetProgress_def)

lemma handler_fields [simp]:
  "processedItems (state (handlePause w)) = processedItems (state w)"
  "processedItems (state (handleResume w)) = processedItems (state w)"
  "processedItems (state (handleCancel w)) = processedItems (state w)"
  "totalItems (state (handlePause w)) = totalItems (state w)"
  "totalItems (state (handleResume w)) = totalItems (state w)"
  "totalItems (state (handleCancel w)) = totalItems (state w)"
  "disk (handlePause w) = disk w"
  "disk (handleResume w) = disk w"
  "disk (handleCancel w) = disk w"
  "cancelled (handlePause w) = cancelled w"
  "cancelled (handleResume w) = cancelled w"
  by (simp_all add: handlePause_def handleResume_def handleCancel_def Pause_def Resume_def Cancel_def
        split: option.splits)

lemma handler_mono:
  "cancelled w \<subseteq> cancelled (handleCancel w)"
  "set (broadcast w) \<subseteq> set (broadcast (handlePause w))"
  "set (broadcast w) \<subseteq> set (broadcast (handleResume w))"
  "broadcast (handleCancel w) = broadcast w"
  by (auto simp add: handlePause_def handleResume_def handleCancel_def Cancel_def
        sendProgressUpdate_def sendLog_def GetProgress_def split: option.splits)

lemma serve_frame:
  "processedItems (state (serve rs w)) = processedItems (state w) \<and>
   totalItems (state (serve rs w)) = totalItems (state w) \<and>
   disk (serve rs w) = disk w \<and>
   cancelled w \<subseteq> cancelled (serve rs w) \<and>
   set (broadcast w) \<subseteq> set (broadcast (serve rs w))"
proof (induction rs w rule: serve.induct)
  case (1 w)
  then show ?case by simp
next
  case (2 rs w)
  with handler_mono(2) [of w] show ?case by auto
next
  case (3 rs w)
  with handler_mono(3) [of w] show ?case by auto
next
  case (4 rs w)
  with handler_mono(1,4) [of w] show ?case by auto
qed

lemma checkpoint_error_cancelled:
  "checkPauseAndCancel (signals_of c w) 0 = Some (Some er, t) \<Longrightarrow> c \<in> cancelled w"
  by (auto simp: checkPauseAndCancel_def ctx_done_def signals_of_def
        split: if_splits dest: pause_loop_error)

lemma emit_Inr:
  "emit e rootPath totalFiles p info h (w, res) = Inr (w', res') \<Longrightarrow>
   \<not> is_closed res \<and>
   items res' = items res @ [\<lparr>Path = filepath_Rel e rootPath p, Size = fst info, ModTime = snd info, Hash = h\<rparr>] \<and>
   processedItems (state w') = processedItems (state w) + 1 \<and>
   totalItems (state w') = totalItems (state w) \<and>
   (is_closed res' \<longleftrightarrow> processedItems (state w') = totalFiles) \<and>
   disk w' = disk w \<and> cancelled w' = cancelled w \<and> set (broadcast w) \<subseteq> set (broadcast w')"
  by (auto simp: emit_def Let_def IncrementProcessed_def sendProgressUpdate_def GetProgress_def
        split: if_splits)

lemma emit_Inl:
  "emit e rootPath totalFiles p info h (w, res) = Inl er \<longleftrightarrow> is_closed res \<and> er = ''send on closed channel''"
  by (auto simp: emit_def Let_def IncrementProcessed_def split: if_splits)

subsection \<open>The worker loop\<close>

lemma worker_Cons:
  "worker e c rootPath totalFiles k (p # jobs) (w, res) =
     (case checkPauseAndCancel (signals_of c (serve (requests e k) w)) 0 of
          None \<Rightarrow> None
        | Some (Some er, t) \<Rightarrow> Some (Inr (serve (requests e k) w, res))
        | Some (None, t) \<Rightarrow>
            (case os_Stat e p of
               Inl er \<Rightarrow>
                 worker e c rootPath totalFiles (Suc k) jobs
                   (sendLog (''ERRO: '' @ p @ '': '' @ er) (serve (requests e k) w), res)
             | Inr info \<Rightarrow>
                 (case calculateHash e p of
                    Inl er \<Rightarrow>
                      worker e c rootPath totalFiles (Suc k) jobs
                        (sendLog (''ERRO hash '' @ p @ '': '' @ er) (serve (requests e k) w), res)
                  | Inr h \<Rightarrow>
                      (case emit e rootPath totalFiles p info h (serve (requests e k) w, res) of
                         Inl panic \<Rightarrow> Some (Inl panic)
                       | Inr s' \<Rightarrow> worker e c rootPath totalFiles (Suc k) jobs s'))))"
  by (simp only: worker.simps Let_def prod.case)


declare worker.simps(2) [simp del]

lemma worker_Cons_cases:
  assumes run: "worker e c rootPath totalFiles k (p # jobs) (w, res) = Some (Inr (w', res'))"
  obtains
    (cancel) er t where
      "checkPauseAndCancel (signals_of c (serve (requests e k) w)) 0 = Some (Some er, t)"
      "w' = serve (requests e k) w" "res' = res"
  | (stat_error) er t where
      "checkPauseAndCancel (signals_of c (serve (requests e k) w)) 0 = Some (None, t)"
      "os_Stat e p = Inl er"
      "worker e c rootPath totalFiles (Suc k) jobs
         (sendLog (''ERRO: '' @ p @ '': '' @ er) (serve (requests e k) w), res) = Some (Inr (w', res'))"
  | (hash_error) info er t where
      "checkPauseAndCancel (signals_of c (serve (requests e k) w)) 0 = Some (None, t)"
      "os_Stat e p = Inr info" "calculateHash e p = Inl er"
      "worker e c rootPath totalFiles (Suc k) jobs
         (sendLog (''ERRO hash '' @ p @ '': '' @ er) (serve (requests e k) w), res) = Some (Inr (w', res'))"
  | (emitted) info h w1 res1 t where
      "checkPauseAndCancel (signals_of c (serve (requests e k) w)) 0 = Some (None, t)"
      "os_Stat e p = Inr info" "calculateHash e p = Inr h"
      "emit e rootPath totalFiles p info h (serve (requests e k) w, res) = Inr (w1, res1)"
      "worker e c rootPath totalFiles (Suc k) jobs (w1, res1) = Some (Inr (w', res'))"
proof (cases "checkPauseAndCancel (signals_of c (serve (requests e k) w)) 0")
  case None
  with run show ?thesis by (simp add: worker_Cons)
next
  case (Some r)
  obtain er t where r: "r = (er, t)" by (cases r)
  show ?thesis
  proof (cases er)
    case (Some x)
    with \<open>checkPauseAndCancel _ 0 = Some r\<close> r
    have chk: "checkPauseAndCancel (signals_of c (serve (requests e k) w)) 0 = Some (Some x, t)"
      by simp
    with run have "w' = serve (requests e k) w" "res' = res"
      by (simp_all add: worker_Cons)
    with chk show ?thesis by (rule cancel)
  next
    case None
    with \<open>checkPauseAndCancel _ 0 = Some r\<close> r
    have chk: "checkPauseAndCancel (signals_of c (serve (requests e k) w)) 0 = Some (None, t)"
      by simp
    show ?thesis
    proof (cases "os_Stat e p")
      case (Inl x)
      with run chk have "worker e c rootPath totalFiles (Suc k) jobs
         (sendLog (''ERRO: '' @ p @ '': '' @ x) (serve (requests e k) w), res) = Some (Inr (w', res'))"
        by (simp add: worker_Cons)
      with chk Inl show ?thesis by (rule stat_error)
    next
      case (Inr info)
      show ?thesis
      proof (cases "calculateHash e p")
        case (Inl x)
        with run chk Inr have "worker e c rootPath totalFiles (Suc k) jobs
           (sendLog (''ERRO hash '' @ p @ '': '' @ x) (serve (requests e k) w), res) = Some (Inr (w', res'))"
          by (simp add: worker_Cons)
        with chk Inr Inl show ?thesis by (rule hash_error)
      next
        case h: (Inr h)
        show ?thesis
        proof (cases "emit e rootPath totalFiles p info h (serve (requests e k) w, res)")
          case (Inl x)
          with run chk Inr h show ?thesis by (simp add: worker_Cons)
        next
          case s: (Inr s)
          obtain w1 res1 where s1: "s = (w1, res1)" by (cases s)
          with run chk Inr h s have "worker e c rootPath totalFiles (Suc k) jobs (w1, res1) = Some (Inr (w', res'))"
            by (simp add: worker_Cons)
          with chk Inr h s [unfolded s1] show ?thesis by (rule emitted)
        qed
      qed
    qed
  qed
qed

lemma worker_closed:
  "is_closed res \<Longrightarrow> worker e c rootPath totalFiles k jobs (w, res) = Some (Inr (w', res')) \<Longrightarrow>
   res' = res \<and> processedItems (state w') = processedItems (state w)"
proof (induction jobs arbitrary: k w)
  case Nil
  then show ?case by simp
next
  case (Cons p jobs)
  from Cons.prems(2) show ?case
  proof (cases rule: worker_Cons_cases)
    case (cancel er t)
    then show ?thesis by (simp add: serve_frame)
  next
    case (stat_error er t)
    from Cons.IH [OF Cons.prems(1) stat_error(3)] show ?thesis by (simp add: serve_frame)
  next
    case (hash_error info er t)
    from Cons.IH [OF Cons.prems(1) hash_error(4)] show ?thesis by (simp add: serve_frame)
  next
    case (emitted info h w1 res1 t)
    with Cons.prems(1) show ?thesis by (simp add: emit_def Let_def)
  qed
qed

lemma worker_frame:
  "worker e c rootPath totalFiles k jobs (w, res) = Some (Inr (w', res')) \<Longrightarrow>
   disk w' = disk w \<and> totalItems (state w') = totalItems (state w) \<and>
   cancelled w \<subseteq> cancelled w' \<and> set (broadcast w) \<subseteq> set (broadcast w') \<and>
   (\<exists>new. items res' = items res @ new \<and>
          processedItems (state w') = processedItems (state w) + int (length new))"
proof (induction jobs arbitrary: k w res)
  case Nil
  then show ?case by simp
next
  case (Cons p jobs)
  let ?w0 = "serve (requests e k) w"
  note fr = serve_frame [of "requests e k" w]
  from Cons.prems show ?case
  proof (cases rule: worker_Cons_cases)
    case (cancel er t)
    with fr show ?thesis by simp
  next
    case (stat_error er t)
    from Cons.IH [OF stat_error(3)] fr show ?thesis by auto
  next
    case (hash_error info er t)
    from Cons.IH [OF hash_error(4)] fr show ?thesis by auto
  next
    case (emitted info h w1 res1 t)
    note em = emit_Inr [OF emitted(4)]
    from Cons.IH [OF emitted(5)] obtain new where
      new: "items res' = items res1 @ new"
           "processedItems (state w') = processedItems (state w1) + int (length new)"
      and rest: "disk w' = disk w1" "totalItems (state w') = totalItems (state w1)"
           "cancelled w1 \<subseteq> cancelled w'" "set (broadcast w1) \<subseteq> set (broadcast w')"
      by blast
    have "items res' = items res @ (\<lparr>Path = filepath_Rel e rootPath p, Size = fst info,
             ModTime = snd info, Hash = h\<rparr> # new)"
      using new em by simp
    moreover have "processedItems (state w') = processedItems (state w) +
        int (length (\<lparr>Path = filepath_Rel e rootPath p, Size = fst info,
             ModTime = snd info, Hash = h\<rparr> # new))"
      using new em fr by simp
    ultimately have "\<exists>new. items res' = items res @ new \<and>
          processedItems (state w') = processedItems (state w) + int (length new)"
      by blast
    with rest em fr show ?thesis by auto
  qed
qed

lemma worker_close_iff:
  "\<not> is_closed res \<Longrightarrow> worker e c rootPath totalFiles k jobs (w, res) = Some (Inr (w', res')) \<Longrightarrow>
   (is_closed res' \<longleftrightarrow>
      processedItems (state w) < totalFiles \<and> totalFiles \<le> processedItems (state w'))"
proof (induction jobs arbitrary: k w res)
  case Nil
  then show ?case by auto
next
  case (Cons p jobs)
  note fr = serve_frame [of "requests e k" w]
  from Cons.prems(2) show ?case
  proof (cases rule: worker_Cons_cases)
    case (cancel er t)
    with fr Cons.prems(1) show ?thesis by auto
  next
    case (stat_error er t)
    from Cons.IH [OF Cons.prems(1) stat_error(3)] fr show ?thesis by simp
  next
    case (hash_error info er t)
    from Cons.IH [OF Cons.prems(1) hash_error(4)] fr show ?thesis by simp
  next
    case (emitted info h w1 res1 t)
    note em = emit_Inr [OF emitted(4)]
    show ?thesis
    proof (cases "is_closed res1")
      case True
      from worker_closed [OF True emitted(5)] True em fr show ?thesis by auto
    next
      case False
      from Cons.IH [OF False emitted(5)] False em fr show ?thesis by auto
    qed
  qed
qed

lemma worker_all_jobs:
  "worker e c rootPath totalFiles k jobs (w, res) = Some (Inr (w', res')) \<Longrightarrow> c \<notin> cancelled w' \<Longrightarrow>
   map Path (items res') =
     map Path (items res) @ map (filepath_Rel e rootPath) (filter (\<lambda>p. \<not> item_fails e p) jobs) \<and>
   (\<forall>p\<in>set jobs. \<forall>er. os_Stat e p = Inl er \<longrightarrow>
      log_event (''ERRO: '' @ p @ '': '' @ er) \<in> set (broadcast w')) \<and>
   (\<forall>p\<in>set jobs. \<forall>info er. os_Stat e p = Inr info \<longrightarrow> calculateHash e p = Inl er \<longrightarrow>
      log_event (''ERRO hash '' @ p @ '': '' @ er) \<in> set (broadcast w'))"
proof (induction jobs arbitrary: k w res)
  case Nil
  then show ?case by simp
next
  case (Cons p jobs)
  from Cons.prems(1) show ?case
  proof (cases rule: worker_Cons_cases)
    case (cancel er t)
    from checkpoint_error_cancelled [OF cancel(1)] cancel(2) Cons.prems(2) show ?thesis by simp
  next
    case (stat_error er t)
    from worker_frame [OF stat_error(3)]
    have "log_event (''ERRO: '' @ p @ '': '' @ er) \<in> set (broadcast w')" by auto
    with Cons.IH [OF stat_error(3) Cons.prems(2)] stat_error(2) show ?thesis
      by (auto simp: item_fails_def)
  next
    case (hash_error info er t)
    from worker_frame [OF hash_error(4)]
    have "log_event (''ERRO hash '' @ p @ '': '' @ er) \<in> set (broadcast w')" by auto
    with Cons.IH [OF hash_error(4) Cons.prems(2)] hash_error(2,3) show ?thesis
      by (auto simp: item_fails_def)
  next
    case (emitted info h w1 res1 t)
    note em = emit_Inr [OF emitted(4)]
    from Cons.IH [OF emitted(5) Cons.prems(2)] em emitted(2,3) show ?thesis
      by (auto simp: item_fails_def)
  qed
qed

subsection \<open>The two passes and the collector\<close>



lemma stream_walk_error:
  "list_all (\<lambda>y. err y = None) xs \<Longrightarrow> err x = Some er \<Longrightarrow>
   stream_walk (xs @ x # ys) = (non_directory_entries xs, Some er)"
  by (induction xs) (auto simp: non_directory_entries_def split: option.splits prod.splits)

lemma stream_walk_no_error:
  "list_all (\<lambda>y. err y = None) xs \<Longrightarrow> stream_walk xs = (non_directory_entries xs, None)"
  by (induction xs) (auto simp: non_directory_entries_def split: option.splits prod.splits)

lemma find_closed_after:
  assumes "find P [0..<Suc m] = Some n"
  shows "n \<le> m \<and> P n"
proof -
  from assms obtain i where "i < length [0..<Suc m]" "P ([0..<Suc m] ! i)" "n = [0..<Suc m] ! i"
    unfolding find_Some_iff by blast
  then show ?thesis by (simp add: nth_upt del: upt_Suc)
qed

lemma CollectFiles_unfold:
  "CollectFiles e c rootPath reportType w =
     (case find (closed_after e c rootPath (count_walk (count_pass e) 0)
                   (fst (stream_walk (stream_pass e)))
                   (collect_start e rootPath w, \<lparr>items = [], is_closed = False\<rparr>))
             [0..<Suc (length (fst (stream_walk (stream_pass e))))] of
        None \<Rightarrow> None
      | Some n \<Rightarrow>
          (case worker e c rootPath (count_walk (count_pass e) 0) 0
                  (take n (fst (stream_walk (stream_pass e))))
                  (collect_start e rootPath w, \<lparr>items = [], is_closed = False\<rparr>) of
             Some (Inr (w5, res)) \<Rightarrow>
               if c \<in> cancelled (serve (requests_at_close e) w5)
               then Some (Inr (report_cancelled (serve (requests_at_close e) w5)))
               else
                 (case worker e c rootPath (count_walk (count_pass e) 0) n
                         (drop n (fst (stream_walk (stream_pass e))))
                         (serve (requests_at_close e) w5, res) of
                    None \<Rightarrow> None
                  | Some (Inl panic) \<Rightarrow> Some (Inl panic)
                  | Some (Inr (w9, res9)) \<Rightarrow>
                      Some (Inr (save_report e rootPath reportType (items res) w9)))
           | _ \<Rightarrow> None))"
  unfolding CollectFiles_def collect_start_def report_cancelled_def Let_def sendLog_fields ..

text \<open>What a returning collection went through.\<close>

lemma CollectFiles_returns:
  assumes run: "CollectFiles e c rootPath reportType w = Some (Inr w')"
  shows "\<exists>n w5 res.
    find (closed_after e c rootPath (count_walk (count_pass e) 0) (fst (stream_walk (stream_pass e)))
            (collect_start e rootPath w, \<lparr>items = [], is_closed = False\<rparr>))
      [0..<Suc (length (fst (stream_walk (stream_pass e))))] = Some n \<and>
    n \<le> length (fst (stream_walk (stream_pass e))) \<and>
    worker e c rootPath (count_walk (count_pass e) 0) 0 (take n (fst (stream_walk (stream_pass e))))
       (collect_start e rootPath w, \<lparr>items = [], is_closed = False\<rparr>) = Some (Inr (w5, res)) \<and>
    is_closed res \<and>
    (if c \<in> cancelled (serve (requests_at_close e) w5)
     then w' = report_cancelled (serve (requests_at_close e) w5)
     else \<exists>w9. worker e c rootPath (count_walk (count_pass e) 0) n
                   (drop n (fst (stream_walk (stream_pass e))))
                   (serve (requests_at_close e) w5, res) = Some (Inr (w9, res)) \<and>
                w' = save_report e rootPath reportType (items res) w9)"
proof -
  let ?jobs = "fst (stream_walk (stream_pass e))"
  let ?total = "count_walk (count_pass e) 0"
  let ?s0 = "(collect_start e rootPath w, \<lparr>items = [], is_closed = False\<rparr>)"
  from run obtain n where
    f: "find (closed_after e c rootPath ?total ?jobs ?s0) [0..<Suc (length ?jobs)] = Some n"
    unfolding CollectFiles_unfold by (cases "find (closed_after e c rootPath ?total ?jobs ?s0)
      [0..<Suc (length ?jobs)]") auto
  from find_closed_after [OF f] have n: "n \<le> length ?jobs"
    and cl: "closed_after e c rootPath ?total ?jobs ?s0 n" by simp_all
  from cl obtain w5 res where
    wk: "worker e c rootPath ?total 0 (take n ?jobs) ?s0 = Some (Inr (w5, res))"
    and closed: "is_closed res"
    unfolding closed_after_def by (auto split: option.splits sum.splits)
  let ?w6 = "serve (requests_at_close e) w5"
  have tail: "if c \<in> cancelled ?w6 then w' = report_cancelled ?w6
     else \<exists>w9. worker e c rootPath ?total n (drop n ?jobs) (?w6, res) = Some (Inr (w9, res)) \<and>
                w' = save_report e rootPath reportType (items res) w9"
  proof (cases "c \<in> cancelled ?w6")
    case True
    with run f wk show ?thesis unfolding CollectFiles_unfold by simp
  next
    case False
    with run f wk obtain s9 where
      w9: "worker e c rootPath ?total n (drop n ?jobs) (?w6, res) = Some (Inr s9)"
      unfolding CollectFiles_unfold
      by (cases "worker e c rootPath ?total n (drop n ?jobs) (?w6, res)")
         (auto split: sum.splits)
    obtain w9 res9 where s9: "s9 = (w9, res9)" by (cases s9)
    from worker_closed [OF closed w9 [unfolded s9]] have r9: "res9 = res" by simp
    from run f wk False w9 s9 have "w' = save_report e rootPath reportType (items res) w9"
      unfolding CollectFiles_unfold by simp
    with False w9 s9 r9 show ?thesis by auto
  qed
  from f n wk closed tail show ?thesis by blast
qed


lemma collect_start_fields:
  "processedItems (state (collect_start e rootPath w)) = processedItems (state w)"
  "totalItems (state (collect_start e rootPath w)) = count_walk (count_pass e) 0"
  "cancelled (collect_start e rootPath w) = cancelled w"
  "disk (collect_start e rootPath w) = disk w"
  "set (broadcast w) \<subseteq> set (broadcast (collect_start e rootPath w))"
  using sendProgressUpdate_fields(5)
  by (auto simp: collect_start_def SetTotal_def sendProgressUpdate_def GetProgress_def)


lemma calculateHash_cong:
  "os_Open e1 = os_Open e2 \<Longrightarrow> io_Copy e1 = io_Copy e2 \<Longrightarrow> calculateHash e1 = calculateHash e2"
  by (rule ext) (simp add: calculateHash_def split: option.splits)

lemma emit_cong:
  "filepath_Rel e1 = filepath_Rel e2 \<Longrightarrow> emit e1 = emit e2"
  by (intro ext) (simp add: emit_def)

lemma worker_cong:
  assumes "requests e1 = requests e2" "os_Stat e1 = os_Stat e2" "os_Open e1 = os_Open e2"
    "io_Copy e1 = io_Copy e2" "filepath_Rel e1 = filepath_Rel e2"
  shows "worker e1 c rootPath totalFiles k jobs s = worker e2 c rootPath totalFiles k jobs s"
proof (induction jobs arbitrary: k s)
  case Nil
  then show ?case by simp
next
  case (Cons p jobs)
  obtain w res where s: "s = (w, res)" by (cases s)
  have h: "calculateHash e1 = calculateHash e2" and m: "emit e1 = emit e2"
    using assms by (auto intro: calculateHash_cong emit_cong)
  show ?case
    unfolding s worker_Cons assms(1,2) h m
    by (simp add: Cons.IH cong: option.case_cong sum.case_cong prod.case_cong)
qed

lemma checkpoint_passes:
  "c \<notin> cancelled w \<Longrightarrow> \<not> isPaused (state w) \<Longrightarrow>
   checkPauseAndCancel (signals_of c w) 0 = Some (None, 0)"
  by (simp add: checkPauseAndCancel_def ctx_done_def signals_of_def pause_loop.simps)

lemma emit_flags:
  "emit e rootPath totalFiles p info h (w, res) = Inr (w', res') \<Longrightarrow>
   isPaused (state w') = isPaused (state w) \<and> status (state w') = status (state w)"
  by (auto simp: emit_def Let_def IncrementProcessed_def sendProgressUpdate_def GetProgress_def
        split: if_splits)

lemma worker_total:
  assumes no_requests: "\<forall>k. requests e k = []"
  shows "\<not> isPaused (state w) \<Longrightarrow> c \<notin> cancelled w \<Longrightarrow>
    (if is_closed res then filter (\<lambda>p. \<not> item_fails e p) jobs = []
     else processedItems (state w) + int (length (filter (\<lambda>p. \<not> item_fails e p) jobs)) \<le> totalFiles) \<Longrightarrow>
    \<exists>w' res'. worker e c rootPath totalFiles k jobs (w, res) = Some (Inr (w', res')) \<and> c \<notin> cancelled w'"
proof (induction jobs arbitrary: k w res)
  case Nil
  then show ?case by simp
next
  case (Cons p jobs)
  have srv: "serve (requests e k) w = w" using no_requests by simp
  have chk: "checkPauseAndCancel (signals_of c w) 0 = Some (None, 0)"
    using Cons.prems by (simp add: checkpoint_passes)
  show ?case
  proof (cases "os_Stat e p")
    case (Inl er)
    then have f: "item_fails e p" by (simp add: item_fails_def)
    have "\<exists>w' res'. worker e c rootPath totalFiles (Suc k) jobs
        (sendLog (''ERRO: '' @ p @ '': '' @ er) w, res) = Some (Inr (w', res')) \<and> c \<notin> cancelled w'"
      using Cons.prems f by (intro Cons.IH) (simp_all split: if_splits)
    then show ?thesis by (simp add: worker_Cons srv chk Inl)
  next
    case (Inr info)
    show ?thesis
    proof (cases "calculateHash e p")
      case (Inl er)
      then have f: "item_fails e p" by (simp add: item_fails_def)
      have "\<exists>w' res'. worker e c rootPath totalFiles (Suc k) jobs
          (sendLog (''ERRO hash '' @ p @ '': '' @ er) w, res) = Some (Inr (w', res')) \<and> c \<notin> cancelled w'"
        using Cons.prems f by (intro Cons.IH) (simp_all split: if_splits)
      then show ?thesis by (simp add: worker_Cons srv chk Inr Inl)
    next
      case h: (Inr h)
      with Inr have ok: "\<not> item_fails e p" by (simp add: item_fails_def)
      with Cons.prems(3) have open_now: "\<not> is_closed res"
        and room: "processedItems (state w) + 1 + int (length (filter (\<lambda>p. \<not> item_fails e p) jobs)) \<le> totalFiles"
        by (auto split: if_splits)
      obtain w1 res1 where em: "emit e rootPath totalFiles p info h (w, res) = Inr (w1, res1)"
        using open_now by (cases "emit e rootPath totalFiles p info h (w, res)") (auto simp: emit_Inl)
      note e1 = emit_Inr [OF em] and e2 = emit_flags [OF em]
      have inv: "if is_closed res1 then filter (\<lambda>p. \<not> item_fails e p) jobs = []
         else processedItems (state w1) + int (length (filter (\<lambda>p. \<not> item_fails e p) jobs)) \<le> totalFiles"
        using e1 room by auto
      have "\<exists>w' res'. worker e c rootPath totalFiles (Suc k) jobs (w1, res1) = Some (Inr (w', res')) \<and> c \<notin> cancelled w'"
        using Cons.prems(1,2) e1 e2 inv by (intro Cons.IH) simp_all
      then show ?thesis by (simp add: worker_Cons srv chk Inr h em)
    qed
  qed
qed


lemma tail_fields:
  "processedItems (state (save_report e rootPath reportType fs w)) = processedItems (state w)"
  by (simp add: save_report_def Let_def Finish_def)


lemma report_cancelled_fields:
  "status (state (report_cancelled w)) = ''finished''"
  "processedItems (state (report_cancelled w)) = processedItems (state w)"
  "cancelled (report_cancelled w) = cancelled w"
  "disk (report_cancelled w) = disk w"
  "log_event (''Coleta cancelada pelo usu'' @ [CHR 0xC3, CHR 0xA1] @ ''rio.'') \<in> set (broadcast (report_cancelled w))"
  "last (broadcast (report_cancelled w)) =
     \<lparr>Type = ''progress'', Message = ''Coleta cancelada.'', Total = totalItems (state w),
      Processed = processedItems (state w),
      Percentage = (if totalItems (state w) > 0
                    then (real_of_int (processedItems (state w)) / real_of_int (totalItems (state w))) * 100
                    else 0),
      Status = ''finished''\<rparr>"
  by (auto simp: report_cancelled_def Finish_def sendProgressUpdate_def GetProgress_def)

subsection \<open>The report of a completed collection\<close>







subsection \<open>Closing the result channel\<close>

text \<open>
  C4. A worker step that sends a record then adds one to the processed count and
  closes the result channel exactly when the new count is the total of the count
  pass. Over a whole run of the worker the channel ends closed exactly when the count
  has passed through that total, and \<^verbatim>\<open>CollectFiles\<close> returns only in that case: nothing
  else closes the channel.
\<close>

theorem results_closed_exactly_at_total:
  "(emit e rootPath totalFiles p info h (w, res) = Inr (w', res') \<longrightarrow>
      items res' = items res @
        [\<lparr>Path = filepath_Rel e rootPath p, Size = fst info, ModTime = snd info, Hash = h\<rparr>] \<and>
      processedItems (state w') = processedItems (state w) + 1 \<and>
      (is_closed res' \<longleftrightarrow> processedItems (state w') = totalFiles)) \<and>
   (\<not> is_closed res \<and> worker e c rootPath totalFiles k jobs (w, res) = Some (Inr (w2, res2)) \<longrightarrow>
      (is_closed res2 \<longleftrightarrow>
         processedItems (state w) < totalFiles \<and> totalFiles \<le> processedItems (state w2))) \<and>
   (CollectFiles e c rootPath reportType w = Some (Inr w3) \<longrightarrow>
      processedItems (state w) < count_walk (count_pass e) 0 \<and>
      count_walk (count_pass e) 0 \<le> processedItems (state w3))"
proof -
  have a: "emit e rootPath totalFiles p info h (w, res) = Inr (w', res') \<longrightarrow>
      items res' = items res @
        [\<lparr>Path = filepath_Rel e rootPath p, Size = fst info, ModTime = snd info, Hash = h\<rparr>] \<and>
      processedItems (state w') = processedItems (state w) + 1 \<and>
      (is_closed res' \<longleftrightarrow> processedItems (state w') = totalFiles)"
    using emit_Inr [of e rootPath totalFiles p info h w res w' res'] by simp
  have b: "\<not> is_closed res \<and> worker e c rootPath totalFiles k jobs (w, res) = Some (Inr (w2, res2)) \<longrightarrow>
      (is_closed res2 \<longleftrightarrow>
         processedItems (state w) < totalFiles \<and> totalFiles \<le> processedItems (state w2))"
    using worker_close_iff [of res e c rootPath totalFiles k jobs w w2 res2] by simp
  have c: "CollectFiles e c rootPath reportType w = Some (Inr w3) \<longrightarrow>
      processedItems (state w) < count_walk (count_pass e) 0 \<and>
      count_walk (count_pass e) 0 \<le> processedItems (state w3)"
  proof
    assume run: "CollectFiles e c rootPath reportType w = Some (Inr w3)"
    let ?jobs = "fst (stream_walk (stream_pass e))"
    from CollectFiles_returns [OF run] obtain n w5 res where
      wk: "worker e c rootPath (count_walk (count_pass e) 0) 0 (take n ?jobs)
             (collect_start e rootPath w, \<lparr>items = [], is_closed = False\<rparr>) = Some (Inr (w5, res))"
      and closed: "is_closed res"
      and tail: "if c \<in> cancelled (serve (requests_at_close e) w5)
        then w3 = report_cancelled (serve (requests_at_close e) w5)
        else \<exists>w9. worker e c rootPath (count_walk (count_pass e) 0) n (drop n ?jobs)
                      (serve (requests_at_close e) w5, res) = Some (Inr (w9, res)) \<and>
                   w3 = save_report e rootPath reportType (items res) w9"
      by blast
    have "processedItems (state w3) = processedItems (state w5)"
    proof (cases "c \<in> cancelled (serve (requests_at_close e) w5)")
      case True
      with tail show ?thesis by (simp add: report_cancelled_fields serve_frame)
    next
      case False
      with tail obtain w9 where
        w9: "worker e c rootPath (count_walk (count_pass e) 0) n (drop n ?jobs)
               (serve (requests_at_close e) w5, res) = Some (Inr (w9, res))"
        and w3: "w3 = save_report e rootPath reportType (items res) w9"
        by auto
      from worker_closed [OF closed w9] w3 show ?thesis
        by (simp add: tail_fields serve_frame)
    qed
    with worker_close_iff [OF _ wk] closed
    show "processedItems (state w) < count_walk (count_pass e) 0 \<and>
        count_walk (count_pass e) 0 \<le> processedItems (state w3)"
      by (simp add: collect_start_fields)
  qed
  show ?thesis by (rule conjI [OF a conjI [OF b c]])
qed

theorem results_closed_exactly_at_total_witness:
  "\<exists>w' res'.
     emit scenario_env ''/r'' 1 ''/r/a.txt'' (4, 100) ''sha256 of /r/a.txt''
       (started_world, \<lparr>items = [], is_closed = False\<rparr>) = Inr (w', res') \<and>
     processedItems (state w') = 1 \<and> is_closed res' \<and>
     worker scenario_env 0 ''/r'' 1 0 [''/r/a.txt''] (started_world, \<lparr>items = [], is_closed = False\<rparr>) =
       Some (Inr (w', res')) \<and>
     (\<exists>w3. CollectFiles scenario_env 0 ''/r'' ''source'' started_world = Some (Inr w3) \<and>
           processedItems (state w3) = 3)"
proof -
  let ?s = "(started_world, \<lparr>items = [], is_closed = False\<rparr>)"
  have fresh: "processedItems (state started_world) = 0" "\<not> isPaused (state started_world)"
      "0 \<notin> cancelled started_world"
    by (simp_all add: started_world_def handleCollect_def IsRunning_def initial_state_def Let_def Start_def)
  obtain w' res' where em: "emit scenario_env ''/r'' 1 ''/r/a.txt'' (4, 100) ''sha256 of /r/a.txt'' ?s = Inr (w', res')"
    by (cases "emit scenario_env ''/r'' 1 ''/r/a.txt'' (4, 100) ''sha256 of /r/a.txt'' ?s")
       (auto simp: emit_Inl)
  have wk: "worker scenario_env 0 ''/r'' 1 0 [''/r/a.txt''] ?s = Some (Inr (w', res'))"
    using em fresh
    by (simp add: worker_Cons checkpoint_passes scenario_env_def calculateHash_def)
  have "map_option (map_sum id (\<lambda>w. processedItems (state w)))
          (CollectFiles scenario_env 0 ''/r'' ''source'' started_world) = Some (Inr 3)"
    by code_simp
  then obtain w3 where run: "CollectFiles scenario_env 0 ''/r'' ''source'' started_world = Some (Inr w3)"
    and p3: "processedItems (state w3) = 3"
    by (cases "CollectFiles scenario_env 0 ''/r'' ''source'' started_world")
       (auto simp: map_sum_def split: sum.splits)
  from results_closed_exactly_at_total
    [of scenario_env "''/r''" 1 "''/r/a.txt''" "(4, 100)" "''sha256 of /r/a.txt''" started_world
        "\<lparr>items = [], is_closed = False\<rparr>" w' res' 0 0 "[''/r/a.txt'']" w' res' "''source''" w3]
    em wk run fresh p3
  show ?thesis by auto
qed

subsection \<open>Files whose stat or hash fails\<close>

text \<open>
  C6. A worker that returns without the context cancelled has gone through every job:
  it sent a record for exactly the files whose stat and hash succeeded, in order, also
  for those that come after a failing one, and a log event for every file whose stat
  or hash failed. With no request of the operator, and no more records to send than
  the total allows, the worker does return: a failing file neither blocks nor panics
  it.
\<close>

theorem failed_item_is_logged_and_skipped:
  "(worker e c rootPath totalFiles k jobs (w, res) = Some (Inr (w', res')) \<and> c \<notin> cancelled w' \<longrightarrow>
      map Path (items res') =
        map Path (items res) @ map (filepath_Rel e rootPath) (filter (\<lambda>p. \<not> item_fails e p) jobs) \<and>
      (\<forall>p\<in>set jobs. \<forall>er. os_Stat e p = Inl er \<longrightarrow>
         log_event (''ERRO: '' @ p @ '': '' @ er) \<in> set (broadcast w')) \<and>
      (\<forall>p\<in>set jobs. \<forall>info er. os_Stat e p = Inr info \<longrightarrow> calculateHash e p = Inl er \<longrightarrow>
         log_event (''ERRO hash '' @ p @ '': '' @ er) \<in> set (broadcast w'))) \<and>
   ((\<forall>i. requests e i = []) \<and> \<not> isPaused (state w) \<and> c \<notin> cancelled w \<and> \<not> is_closed res \<and>
    processedItems (state w) + int (length (filter (\<lambda>p. \<not> item_fails e p) jobs)) \<le> totalFiles \<longrightarrow>
      (\<exists>w2 res2. worker e c rootPath totalFiles k jobs (w, res) = Some (Inr (w2, res2)) \<and>
                 c \<notin> cancelled w2))"
proof -
  have a: "worker e c rootPath totalFiles k jobs (w, res) = Some (Inr (w', res')) \<and> c \<notin> cancelled w' \<longrightarrow>
      map Path (items res') =
        map Path (items res) @ map (filepath_Rel e rootPath) (filter (\<lambda>p. \<not> item_fails e p) jobs) \<and>
      (\<forall>p\<in>set jobs. \<forall>er. os_Stat e p = Inl er \<longrightarrow>
         log_event (''ERRO: '' @ p @ '': '' @ er) \<in> set (broadcast w')) \<and>
      (\<forall>p\<in>set jobs. \<forall>info er. os_Stat e p = Inr info \<longrightarrow> calculateHash e p = Inl er \<longrightarrow>
         log_event (''ERRO hash '' @ p @ '': '' @ er) \<in> set (broadcast w'))"
    using worker_all_jobs [of e c rootPath totalFiles k jobs w res w' res'] by blast
  have b: "(\<forall>i. requests e i = []) \<and> \<not> isPaused (state w) \<and> c \<notin> cancelled w \<and> \<not> is_closed res \<and>
    processedItems (state w) + int (length (filter (\<lambda>p. \<not> item_fails e p) jobs)) \<le> totalFiles \<longrightarrow>
      (\<exists>w2 res2. worker e c rootPath totalFiles k jobs (w, res) = Some (Inr (w2, res2)) \<and>
                 c \<notin> cancelled w2)"
  proof
    assume h: "(\<forall>i. requests e i = []) \<and> \<not> isPaused (state w) \<and> c \<notin> cancelled w \<and> \<not> is_closed res \<and>
      processedItems (state w) + int (length (filter (\<lambda>p. \<not> item_fails e p) jobs)) \<le> totalFiles"
    then have "if is_closed res then filter (\<lambda>p. \<not> item_fails e p) jobs = []
       else processedItems (state w) + int (length (filter (\<lambda>p. \<not> item_fails e p) jobs)) \<le> totalFiles"
      by simp
    with h show "\<exists>w2 res2. worker e c rootPath totalFiles k jobs (w, res) = Some (Inr (w2, res2)) \<and>
                 c \<notin> cancelled w2"
      by (intro worker_total) simp_all
  qed
  show ?thesis by (rule conjI [OF a b])
qed

theorem failed_item_is_logged_and_skipped_witness:
  "\<exists>w' res'.
     worker broken_env 0 ''/r'' 3 0 [''/r/a.txt'', ''/r/b.txt'', ''/r/sub/c.txt'']
       (started_world, \<lparr>items = [], is_closed = False\<rparr>) = Some (Inr (w', res')) \<and>
     0 \<notin> cancelled w' \<and>
     map Path (items res') = [''b.txt'', ''sub/c.txt''] \<and>
     log_event ''ERRO: /r/a.txt: permission denied'' \<in> set (broadcast w')"
proof -
  let ?jobs = "[''/r/a.txt'', ''/r/b.txt'', ''/r/sub/c.txt'']"
  let ?s = "(started_world, \<lparr>items = [], is_closed = False\<rparr>)"
  have fresh: "processedItems (state started_world) = 0" "\<not> isPaused (state started_world)"
      "0 \<notin> cancelled started_world"
    by (simp_all add: started_world_def handleCollect_def IsRunning_def initial_state_def Let_def Start_def)
  have req: "\<forall>i. requests broken_env i = []"
    by (simp add: broken_env_def scenario_env_def)
  have fails: "item_fails broken_env ''/r/a.txt''" "\<not> item_fails broken_env ''/r/b.txt''"
      "\<not> item_fails broken_env ''/r/sub/c.txt''"
    by (simp_all add: item_fails_def broken_env_def scenario_env_def calculateHash_def)
  have st: "os_Stat broken_env ''/r/a.txt'' = Inl ''permission denied''"
    by (simp add: broken_env_def)
  have "processedItems (state started_world) +
      int (length (filter (\<lambda>p. \<not> item_fails broken_env p) ?jobs)) \<le> 3"
    using fresh fails by simp
  with failed_item_is_logged_and_skipped [of broken_env 0 "''/r''" 3 0 ?jobs started_world
      "\<lparr>items = [], is_closed = False\<rparr>" started_world "\<lparr>items = [], is_closed = False\<rparr>",
      THEN conjunct2] req fresh
  have "\<exists>w2 res2. worker broken_env 0 ''/r'' 3 0 ?jobs ?s = Some (Inr (w2, res2)) \<and> 0 \<notin> cancelled w2"
    by simp
  then obtain w2 res2 where wk: "worker broken_env 0 ''/r'' 3 0 ?jobs ?s = Some (Inr (w2, res2))"
    and nc: "0 \<notin> cancelled w2"
    by blast
  from failed_item_is_logged_and_skipped [of broken_env 0 "''/r''" 3 0 ?jobs started_world
      "\<lparr>items = [], is_closed = False\<rparr>" w2 res2, THEN conjunct1] wk nc
  have r: "map Path (items res2) =
        map Path (items \<lparr>items = [], is_closed = False\<rparr>) @
        map (filepath_Rel broken_env ''/r'') (filter (\<lambda>p. \<not> item_fails broken_env p) ?jobs)"
    and l: "\<forall>p\<in>set ?jobs. \<forall>er. os_Stat broken_env p = Inl er \<longrightarrow>
         log_event (''ERRO: '' @ p @ '': '' @ er) \<in> set (broadcast w2)"
    by blast+
  from r fails have "map Path (items res2) = [''b.txt'', ''sub/c.txt'']"
    by (simp add: broken_env_def scenario_env_def)
  moreover from l st have "log_event ''ERRO: /r/a.txt: permission denied'' \<in> set (broadcast w2)"
    by simp
  ultimately have "map Path (items res2) = [''b.txt'', ''sub/c.txt'']"
    and "log_event ''ERRO: /r/a.txt: permission denied'' \<in> set (broadcast w2)"
    by simp_all
  with wk nc show ?thesis by (intro exI [of _ w2] exI [of _ res2]) simp
qed

subsection \<open>Traversal errors in the stream pass\<close>

lemma collect_start_cong:
  "count_pass e1 = count_pass e2 \<Longrightarrow> collect_start e1 = collect_start e2"
  by (intro ext) (simp add: collect_start_def)

lemma save_report_cong:
  "time_Now e1 = time_Now e2 \<Longrightarrow> time_Format e1 = time_Format e2 \<Longrightarrow>
   os_Create_ok e1 = os_Create_ok e2 \<Longrightarrow> Encode_ok e1 = Encode_ok e2 \<Longrightarrow>
   save_report e1 = save_report e2"
  by (intro ext) (simp add: save_report_def report_name_def)

lemma closed_after_cong:
  assumes "requests e1 = requests e2" "os_Stat e1 = os_Stat e2" "os_Open e1 = os_Open e2"
    "io_Copy e1 = io_Copy e2" "filepath_Rel e1 = filepath_Rel e2"
  shows "closed_after e1 = closed_after e2"
  by (intro ext) (simp add: closed_after_def worker_cong [OF assms])

lemma CollectFiles_stream_cong:
  assumes "fst (stream_walk (stream_pass e1)) = fst (stream_walk (stream_pass e2))"
    "count_pass e1 = count_pass e2"
    "requests e1 = requests e2" "os_Stat e1 = os_Stat e2" "os_Open e1 = os_Open e2"
    "io_Copy e1 = io_Copy e2" "filepath_Rel e1 = filepath_Rel e2"
    "time_Now e1 = time_Now e2" "time_Format e1 = time_Format e2"
    "os_Create_ok e1 = os_Create_ok e2" "Encode_ok e1 = Encode_ok e2"
    "requests_at_close e1 = requests_at_close e2"
  shows "CollectFiles e1 c rootPath reportType w = CollectFiles e2 c rootPath reportType w"
  unfolding CollectFiles_unfold
    worker_cong [OF assms(3-7), of c rootPath] closed_after_cong [OF assms(3-7)]
    collect_start_cong [OF assms(2)] save_report_cong [OF assms(8-11)] assms(1,2,12) ..

text \<open>
  C8 (as amended). At the first entry whose error is not \<^verbatim>\<open>nil\<close> the stream pass ends:
  the files before it have been queued, none after it is, and \<^verbatim>\<open>filepath.Walk\<close> returns
  that error. \<^verbatim>\<open>CollectFiles\<close> drops the returned value: the whole run is the one of a
  walk that ended there, so no event tells of the error.
\<close>

theorem traversal_error_ends_pass_and_is_dropped:
  assumes "list_all (\<lambda>y. err y = None) xs" and "err x = Some er"
  shows "stream_walk (xs @ x # ys) = (non_directory_entries xs, Some er) \<and>
         CollectFiles (e\<lparr>stream_pass := xs @ x # ys\<rparr>) c rootPath reportType w =
         CollectFiles (e\<lparr>stream_pass := xs\<rparr>) c rootPath reportType w"
proof
  show "stream_walk (xs @ x # ys) = (non_directory_entries xs, Some er)"
    using assms by (rule stream_walk_error)
  then have "fst (stream_walk (stream_pass (e\<lparr>stream_pass := xs @ x # ys\<rparr>))) =
      fst (stream_walk (stream_pass (e\<lparr>stream_pass := xs\<rparr>)))"
    using assms(1) by (simp add: stream_walk_no_error)
  then show "CollectFiles (e\<lparr>stream_pass := xs @ x # ys\<rparr>) c rootPath reportType w =
         CollectFiles (e\<lparr>stream_pass := xs\<rparr>) c rootPath reportType w"
    by (rule CollectFiles_stream_cong) simp_all
qed

theorem traversal_error_ends_pass_and_is_dropped_witness:
  "list_all (\<lambda>y. err y = None) scenario_walk \<and>
   err \<lparr>path = ''/r/locked'', is_dir = True, err = Some ''permission denied''\<rparr> = Some ''permission denied'' \<and>
   stream_walk locked_walk = ([''/r/a.txt'', ''/r/b.txt'', ''/r/sub/c.txt''], Some ''permission denied'') \<and>
   CollectFiles (scenario_env\<lparr>stream_pass := locked_walk\<rparr>) 0 ''/r'' ''source'' started_world =
   CollectFiles (scenario_env\<lparr>stream_pass := scenario_walk\<rparr>) 0 ''/r'' ''source'' started_world"
proof -
  have h1: "list_all (\<lambda>y. err y = None) scenario_walk"
    by (simp add: scenario_walk_def)
  have h2: "err \<lparr>path = ''/r/locked'', is_dir = True, err = Some ''permission denied''\<rparr> = Some ''permission denied''"
    by simp
  have n: "non_directory_entries scenario_walk = [''/r/a.txt'', ''/r/b.txt'', ''/r/sub/c.txt'']"
    by (simp add: non_directory_entries_def scenario_walk_def)
  from traversal_error_ends_pass_and_is_dropped [OF h1 h2, of "[]" scenario_env 0 "''/r''" "''source''" started_world]
    h1 h2 n
  show ?thesis by (simp add: locked_walk_def)
qed

text \<open>A tree whose last entry is a directory that cannot be read: the walk returns the
  error, and the events of the run are those of a successful collection.\<close>

theorem traversal_error_no_failure_event:
  "snd (stream_walk (stream_pass (scenario_env\<lparr>count_pass := locked_walk, stream_pass := locked_walk\<rparr>))) =
     Some ''permission denied'' \<and>
   map_option (map_sum id (\<lambda>w. (status (state w), map Message (broadcast w))))
     (CollectFiles (scenario_env\<lparr>count_pass := locked_walk, stream_pass := locked_walk\<rparr>)
        0 ''/r'' ''source'' started_world) =
     Some (Inr (''finished'',
       [''Iniciando contagem de arquivos em: /r'',
        ''Total de arquivos encontrados: 3'',
        ''Iniciando coleta...'',
        ''Coletado: a.txt'', ''Coletado: b.txt'', ''Coletado: sub/c.txt'',
        ''Coleta finalizada! Relat'' @ [CHR 0xC3, CHR 0xB3] @
          ''rio salvo em: collected_data/source_20260101_120000.json'',
        ''Coleta finalizada!'']))"
  by code_simp

subsection \<open>Failures while writing the report\<close>





subsection \<open>Cancelled collections\<close>


text \<open>
  The other runs with a cancellation. When the worker meets it at a checkpoint before
  the count has reached the total (here before the second of three files), it
  returns with \<^verbatim>\<open>results\<close> open: the status is the canceled that \<^verbatim>\<open>Cancel\<close> has set
  and no report exists, but the collector never leaves \<^verbatim>\<open>for res := range results\<close>,
  so \<^verbatim>\<open>CollectFiles\<close> does not return and no event tells of the cancellation, which
  the comment in \<^verbatim>\<open>handleCancel\<close> (line 439) leaves to it. When the cancellation
  comes after the collector has read \<^verbatim>\<open>ctx.Err()\<close> (here with a file that appeared
  after the count pass still to do), the report is written and success is reported.
  A tree without files is never finished either.
\<close>

lemma cancel_before_last_job_leaves_the_channel_open:
  "map_option (map_sum id (\<lambda>(w, res). (is_closed res, map Path (items res), 0 \<in> cancelled w,
       status (state w), processedItems (state w), totalItems (state w),
       map Message (broadcast w), disk w ''collected_data/source_20260101_120000.json'')))
     (worker cancel_early_env 0 ''/r'' (count_walk (count_pass cancel_early_env) 0) 0
        (fst (stream_walk (stream_pass cancel_early_env)))
        (collect_start cancel_early_env ''/r'' started_world, \<lparr>items = [], is_closed = False\<rparr>)) =
   Some (Inr (False, [''a.txt''], True, ''canceled'', 1, 3,
     [''Iniciando contagem de arquivos em: /r'',
      ''Total de arquivos encontrados: 3'',
      ''Iniciando coleta...'',
      ''Coletado: a.txt''],
     None))"
  by code_simp

lemma cancel_before_last_job_never_returns:
  "CollectFiles cancel_early_env 0 ''/r'' ''source'' started_world = None"
  by code_simp

lemma cancel_after_close_writes_report:
  "map_option (map_sum id (\<lambda>w. (0 \<in> cancelled w, status (state w), Message (last (broadcast w)),
       map_option (map_option (\<lambda>r. map Path (Files r)))
         (disk w ''collected_data/source_20260101_120000.json''))))
     (CollectFiles cancel_after_close_env 0 ''/r'' ''source'' started_world) =
   Some (Inr (True, ''finished'', ''Coleta finalizada!'',
              Some (Some [''a.txt'', ''b.txt'', ''sub/c.txt''])))"
  by code_simp

lemma empty_tree_never_returns:
  "CollectFiles (scenario_env\<lparr>count_pass := [\<lparr>path = ''/r'', is_dir = True, err = None\<rparr>],
                              stream_pass := [\<lparr>path = ''/r'', is_dir = True, err = None\<rparr>]\<rparr>)
     0 ''/r'' ''source'' started_world = None"
  by code_simp

end
